theory Spec2Isabelle
  imports Complex_Main "HOL-Library.AList" "HOL-Library.Char_ord" "HOL-Library.List_Lexorder"
begin

section \<open>Smart Parking Lot System: data model\<close>

text \<open>
  The TypeScript sources are embedded as follows.
  \<^item> The enums \<open>VehicleType\<close> and \<open>SpotType\<close> (types/index.ts) are datatypes. Both enums
    have a member \<open>MOTORCYCLE\<close>; the member of \<open>SpotType\<close> is written \<open>MOTORCYCLE_SPOT\<close>.
  \<^item> Classes are records. The fields \<open>id\<close> and \<open>floor\<close> of \<open>ParkingSpot\<close> are written
    \<open>id_spot\<close> and \<open>floor_spot\<close>, since \<open>id\<close> and \<open>floor\<close> are constants of HOL, and the
    field \<open>type\<close> of \<open>Vehicle\<close> is written \<open>type_vehicle\<close> alike.
  \<^item> A JavaScript \<open>Map\<close> is an association list in insertion order: \<open>Map.set\<close> is
    \<open>AList.update\<close> (an existing key keeps its position, a new key goes to the end),
    \<open>Map.get\<close> is \<open>map_of\<close>, \<open>Map.delete\<close> is \<open>AList.delete\<close>. The rate table, whose order
    is never observed, is a partial function.
  \<^item> Object references: a ticket object is shared by the two maps of the repository. The
    map \<open>tickets\<close> is the store of ticket objects, addressed by their \<open>ticketId\<close>, and
    \<open>activeTicketsByVehicle\<close> holds the address. A ticket refers to its spot object only to
    read the readonly field \<open>id\<close>, so the ticket holds that identifier. A spot object that a
    method mutates is stored back in the spot map, which holds it under its identifier.
  \<^item> \<open>number\<close>: floor numbers and times (milliseconds of \<open>Date.getTime\<close>) are integers, the
    ticket counter is a natural number, durations in hours and fees are the real numbers
    that the doubles denote. The operations on doubles that round (the sum, the
    difference, the product and the quotient) and \<open>String.localeCompare\<close> are built-ins
    of the JavaScript runtime: they are parameters of the model, the fields of the record
    \<open>runtime\<close>. \<open>Math.ceil\<close> and the comparison of numbers are exact.
  \<^item> \<open>throw new Error(...)\<close> is a value of the datatype \<open>error\<close>. A method that can throw
    returns a pair of its result (\<open>Inl\<close> the error) and the state it leaves behind, since
    an exception does not undo the mutations made before it.
  \<^item> \<open>new Date()\<close> is an argument of the operation that reads the clock.
  \<^item> \<open>Mutex.runExclusive\<close> serialises the operations; each one is a state transformer.
\<close>

datatype VehicleType = MOTORCYCLE | CAR | BUS

datatype SpotType = MOTORCYCLE_SPOT | COMPACT | LARGE

record ParkingRate =
  vehicleType :: VehicleType
  baseFee :: real
  hourlyRate :: real

record Vehicle =
  licensePlate :: string
  type_vehicle :: VehicleType
  ownerName :: "string option"

record ParkingSpot =
  id_spot :: string
  floor_spot :: int
  spotType :: SpotType
  isAvailable :: bool
  currentVehicleLicense :: "string option"

record ParkingTicket =
  ticketId :: string
  vehicle :: Vehicle
  spot :: string
  entryTime :: int
  exitTime :: "int option"
  fee :: "real option"

datatype error =
    AlreadyParked string string
  | NoActiveSession string
  | NoRateFound VehicleType
  | AlreadyCompleted string
  | SpotNotFound string
  | SpotAlreadyOccupied string

section \<open>The built-ins of the runtime\<close>

text \<open>
  The operations of the JavaScript runtime that the code calls and that are not exact
  operations on integers: \<open>a.localeCompare(b)\<close> on strings, which follows the collation of
  the locale and returns a negative number, zero or a positive number, and the sum, the
  difference, the product and the quotient of two numbers, which are rounded to a double. Every function
  that uses one of them takes the runtime as its first argument.
\<close>

record runtime =
  localeCompare :: "string \<Rightarrow> string \<Rightarrow> int"
  num_add :: "real \<Rightarrow> real \<Rightarrow> real"
  num_sub :: "real \<Rightarrow> real \<Rightarrow> real"
  num_mul :: "real \<Rightarrow> real \<Rightarrow> real"
  num_div :: "real \<Rightarrow> real \<Rightarrow> real"

section \<open>FeeCalculator\<close>

type_synonym FeeCalculator = "VehicleType \<rightharpoonup> ParkingRate"

definition defaultRates :: "ParkingRate list" where
  "defaultRates =
     [\<lparr>vehicleType = MOTORCYCLE, baseFee = 2, hourlyRate = 1\<rparr>,
      \<lparr>vehicleType = CAR, baseFee = 5, hourlyRate = 5 / 2\<rparr>,
      \<lparr>vehicleType = BUS, baseFee = 10, hourlyRate = 5\<rparr>]"

text \<open>\<open>setRate\<close>: \<open>this.rates.set(rate.vehicleType, rate)\<close>.\<close>

definition setRate :: "ParkingRate \<Rightarrow> FeeCalculator \<Rightarrow> FeeCalculator" where
  "setRate rate rates = rates(vehicleType rate \<mapsto> rate)"

text \<open>
  The constructor: \<open>rates || [defaults]\<close>, then \<open>forEach\<close> stores each rate under its
  vehicle type, a later entry replacing an earlier one. An array, even the empty one, is
  truthy, so the defaults are used only when no argument is given.
\<close>

definition FeeCalculator_new :: "ParkingRate list option \<Rightarrow> FeeCalculator" where
  "FeeCalculator_new rates =
     fold setRate (case rates of None \<Rightarrow> defaultRates | Some rs \<Rightarrow> rs) Map.empty"

text \<open>
  \<open>calculateFee\<close>: \<open>Math.ceil\<close> of the duration; at most one hour costs the base fee, each
  further started hour the hourly rate. The difference, the product and the sum are those
  of the runtime.
\<close>

definition calculateFee ::
  "runtime \<Rightarrow> FeeCalculator \<Rightarrow> VehicleType \<Rightarrow> real \<Rightarrow> error + real"
where
  "calculateFee env rates vt durationHours =
     (case rates vt of
        None \<Rightarrow> Inl (NoRateFound vt)
      | Some rate \<Rightarrow>
          (let hours = \<lceil>durationHours\<rceil> in
           if hours \<le> 1 then Inr (baseFee rate)
           else (let additionalHours = num_sub env (of_int hours) 1
                 in Inr (num_add env (baseFee rate)
                          (num_mul env additionalHours (hourlyRate rate))))))"

definition getRate :: "FeeCalculator \<Rightarrow> VehicleType \<Rightarrow> ParkingRate option" where
  "getRate rates vt = rates vt"

section \<open>ParkingSpot\<close>

definition ParkingSpot_new :: "string \<Rightarrow> int \<Rightarrow> SpotType \<Rightarrow> ParkingSpot" where
  "ParkingSpot_new i f t =
     \<lparr>id_spot = i, floor_spot = f, spotType = t, isAvailable = True,
      currentVehicleLicense = None\<rparr>"

definition canFit :: "ParkingSpot \<Rightarrow> VehicleType \<Rightarrow> bool" where
  "canFit sp vt =
     (case spotType sp of
        MOTORCYCLE_SPOT \<Rightarrow> vt = MOTORCYCLE
      | COMPACT \<Rightarrow> vt = MOTORCYCLE \<or> vt = CAR
      | LARGE \<Rightarrow> True)"

text \<open>\<open>occupy\<close> throws when the spot is taken and changes nothing then.\<close>

definition occupy :: "string \<Rightarrow> ParkingSpot \<Rightarrow> (error + unit) \<times> ParkingSpot" where
  "occupy vehicleLicense sp =
     (if \<not> isAvailable sp then (Inl (SpotAlreadyOccupied (id_spot sp)), sp)
      else (Inr (), sp\<lparr>isAvailable := False, currentVehicleLicense := Some vehicleLicense\<rparr>))"

definition release :: "ParkingSpot \<Rightarrow> ParkingSpot" where
  "release sp = sp\<lparr>isAvailable := True, currentVehicleLicense := None\<rparr>"

section \<open>ParkingTicket\<close>

definition ParkingTicket_new :: "string \<Rightarrow> Vehicle \<Rightarrow> ParkingSpot \<Rightarrow> int \<Rightarrow> ParkingTicket" where
  "ParkingTicket_new tid v sp t =
     \<lparr>ticketId = tid, vehicle = v, spot = id_spot sp, entryTime = t, exitTime = None,
      fee = None\<rparr>"

definition isActive :: "ParkingTicket \<Rightarrow> bool" where
  "isActive t = (exitTime t = None)"

text \<open>\<open>complete\<close> throws on a ticket that is not active, before it assigns anything.\<close>

definition complete :: "int \<Rightarrow> real \<Rightarrow> ParkingTicket \<Rightarrow> (error + unit) \<times> ParkingTicket" where
  "complete exit f t =
     (if \<not> isActive t then (Inl (AlreadyCompleted (ticketId t)), t)
      else (Inr (), t\<lparr>exitTime := Some exit, fee := Some f\<rparr>))"

text \<open>
  \<open>getDuration\<close>: the end time is the exit time, or the clock \<open>now\<close> when there is none;
  the difference in milliseconds, taken by the runtime, is divided, by the runtime, by
  \<open>1000 * 60 * 60\<close>.
\<close>

definition getDuration :: "runtime \<Rightarrow> ParkingTicket \<Rightarrow> int \<Rightarrow> real" where
  "getDuration env t now =
     (let endTime = (case exitTime t of Some e \<Rightarrow> e | None \<Rightarrow> now)
      in num_div env (num_sub env (of_int endTime) (of_int (entryTime t))) (1000 * 60 * 60))"

section \<open>ParkingLotRepository\<close>

record ParkingLotRepository =
  spots :: "(string \<times> ParkingSpot) list"
  tickets :: "(string \<times> ParkingTicket) list"
  activeTicketsByVehicle :: "(string \<times> string) list"

definition ParkingLotRepository_new :: ParkingLotRepository where
  "ParkingLotRepository_new = \<lparr>spots = [], tickets = [], activeTicketsByVehicle = []\<rparr>"

definition addSpot :: "ParkingSpot \<Rightarrow> ParkingLotRepository \<Rightarrow> ParkingLotRepository" where
  "addSpot sp repo = repo\<lparr>spots := AList.update (id_spot sp) sp (spots repo)\<rparr>"

definition getSpot :: "ParkingLotRepository \<Rightarrow> string \<Rightarrow> ParkingSpot option" where
  "getSpot repo spotId = map_of (spots repo) spotId"

definition getAllSpots :: "ParkingLotRepository \<Rightarrow> ParkingSpot list" where
  "getAllSpots repo = map snd (spots repo)"

definition getAvailableSpots :: "ParkingLotRepository \<Rightarrow> ParkingSpot list" where
  "getAvailableSpots repo = filter isAvailable (getAllSpots repo)"

definition addTicket :: "ParkingTicket \<Rightarrow> ParkingLotRepository \<Rightarrow> ParkingLotRepository" where
  "addTicket t repo =
     (let repo1 = repo\<lparr>tickets := AList.update (ticketId t) t (tickets repo)\<rparr>
      in if isActive t
         then repo1\<lparr>activeTicketsByVehicle :=
                AList.update (licensePlate (vehicle t)) (ticketId t) (activeTicketsByVehicle repo1)\<rparr>
         else repo1)"

definition getTicket :: "ParkingLotRepository \<Rightarrow> string \<Rightarrow> ParkingTicket option" where
  "getTicket repo tid = map_of (tickets repo) tid"

text \<open>
  \<open>getActiveTicketByVehicle\<close> returns the object the index holds: the entry of the index
  is the address, the object is read from the ticket store.
\<close>

definition getActiveTicketByVehicle :: "ParkingLotRepository \<Rightarrow> string \<Rightarrow> ParkingTicket option" where
  "getActiveTicketByVehicle repo plate =
     (case map_of (activeTicketsByVehicle repo) plate of
        None \<Rightarrow> None
      | Some tid \<Rightarrow> map_of (tickets repo) tid)"

definition completeTicket :: "string \<Rightarrow> ParkingLotRepository \<Rightarrow> ParkingLotRepository" where
  "completeTicket tid repo =
     (case map_of (tickets repo) tid of
        None \<Rightarrow> repo
      | Some t \<Rightarrow>
          repo\<lparr>activeTicketsByVehicle :=
                 AList.delete (licensePlate (vehicle t)) (activeTicketsByVehicle repo)\<rparr>)"

definition getAllTickets :: "ParkingLotRepository \<Rightarrow> ParkingTicket list" where
  "getAllTickets repo = map snd (tickets repo)"

definition getActiveTickets :: "ParkingLotRepository \<Rightarrow> ParkingTicket list" where
  "getActiveTickets repo = filter isActive (getAllTickets repo)"

section \<open>ParkingSpotManager\<close>

text \<open>
  The comparator of \<open>allocateSpot\<close>: lower floors first, then by identifier, as
  \<open>localeCompare\<close> of the runtime compares them.
\<close>

definition compareSpots :: "runtime \<Rightarrow> ParkingSpot \<Rightarrow> ParkingSpot \<Rightarrow> int" where
  "compareSpots env a b =
     (if floor_spot a \<noteq> floor_spot b then floor_spot a - floor_spot b
      else localeCompare env (id_spot a) (id_spot b))"

text \<open>
  \<open>Array.prototype.sort\<close> with a comparator is a stable sort; it is modelled as the
  stable insertion sort. The theorems on \<open>allocateSpot\<close> use only that the first element
  of the result is the earliest element of the input that no element precedes.
\<close>

fun insert_cmp :: "('a \<Rightarrow> 'a \<Rightarrow> int) \<Rightarrow> 'a \<Rightarrow> 'a list \<Rightarrow> 'a list" where
  "insert_cmp cmp x [] = [x]"
| "insert_cmp cmp x (y # ys) =
     (if cmp x y \<le> 0 then x # y # ys else y # insert_cmp cmp x ys)"

definition sort_cmp :: "('a \<Rightarrow> 'a \<Rightarrow> int) \<Rightarrow> 'a list \<Rightarrow> 'a list" where
  "sort_cmp cmp xs = foldr (insert_cmp cmp) xs []"

text \<open>
  \<open>allocateSpot\<close>. The selected object is mutated by \<open>occupy\<close>; the repository holds it
  under its identifier, where the changed object is stored.
\<close>

definition allocateSpot ::
  "runtime \<Rightarrow> VehicleType \<Rightarrow> string \<Rightarrow> ParkingLotRepository
     \<Rightarrow> (error + ParkingSpot option) \<times> ParkingLotRepository"
where
  "allocateSpot env vt vehicleLicense repo =
     (let availableSpots =
            sort_cmp (compareSpots env) (filter (\<lambda>sp. canFit sp vt) (getAvailableSpots repo))
      in case availableSpots of
           [] \<Rightarrow> (Inr None, repo)
         | selectedSpot # _ \<Rightarrow>
             (case occupy vehicleLicense selectedSpot of
                (Inl e, sp') \<Rightarrow>
                  (Inl e, repo\<lparr>spots := AList.update (id_spot sp') sp' (spots repo)\<rparr>)
              | (Inr _, sp') \<Rightarrow>
                  (Inr (Some sp'), repo\<lparr>spots := AList.update (id_spot sp') sp' (spots repo)\<rparr>)))"

text \<open>\<open>releaseSpot\<close>: the object found under \<open>spotId\<close> is released in place.\<close>

definition releaseSpot ::
  "string \<Rightarrow> ParkingLotRepository \<Rightarrow> (error + unit) \<times> ParkingLotRepository"
where
  "releaseSpot spotId repo =
     (case getSpot repo spotId of
        None \<Rightarrow> (Inl (SpotNotFound spotId), repo)
      | Some sp \<Rightarrow> (Inr (), repo\<lparr>spots := AList.update spotId (release sp) (spots repo)\<rparr>))"

definition hasAvailableSpot :: "ParkingLotRepository \<Rightarrow> VehicleType \<Rightarrow> bool" where
  "hasAvailableSpot repo vt = list_ex (\<lambda>sp. canFit sp vt) (getAvailableSpots repo)"

section \<open>ParkingLotService\<close>

text \<open>
  \<open>String(n)\<close> of a natural number is its decimal notation; \<open>padStart(k, c)\<close> puts
  copies of \<open>c\<close> in front of a string shorter than \<open>k\<close>.
\<close>

definition digit_char :: "nat \<Rightarrow> char" where
  "digit_char d = char_of (48 + d)"

function String_nat :: "nat \<Rightarrow> string" where
  "String_nat n =
     (if n < 10 then [digit_char n] else String_nat (n div 10) @ [digit_char (n mod 10)])"
  by pat_completeness auto
termination
  by (relation "measure (\<lambda>n. n)") auto

declare String_nat.simps [simp del]

definition padStart :: "nat \<Rightarrow> char \<Rightarrow> string \<Rightarrow> string" where
  "padStart k c s = replicate (k - length s) c @ s"

record ParkingLotService =
  repository :: ParkingLotRepository
  feeCalculator :: FeeCalculator
  ticketCounter :: nat

definition ParkingLotService_new :: "ParkingLotRepository \<Rightarrow> FeeCalculator \<Rightarrow> ParkingLotService" where
  "ParkingLotService_new repo fc = \<lparr>repository = repo, feeCalculator = fc, ticketCounter = 1\<rparr>"

text \<open>\<open>generateTicketId\<close> reads the counter and then increments it.\<close>

definition ticketIdOf :: "nat \<Rightarrow> string" where
  "ticketIdOf n = ''T'' @ padStart 6 CHR ''0'' (String_nat n)"

definition generateTicketId :: "ParkingLotService \<Rightarrow> string \<times> ParkingLotService" where
  "generateTicketId svc =
     (ticketIdOf (ticketCounter svc), svc\<lparr>ticketCounter := ticketCounter svc + 1\<rparr>)"

text \<open>
  \<open>checkInVehicle vehicle\<close>, with \<open>now\<close> the value of \<open>new Date()\<close>. The result \<open>Inr None\<close>
  is the \<open>null\<close> returned when no spot is available.
\<close>

definition checkInVehicle ::
  "runtime \<Rightarrow> Vehicle \<Rightarrow> int \<Rightarrow> ParkingLotService
     \<Rightarrow> (error + ParkingTicket option) \<times> ParkingLotService"
where
  "checkInVehicle env v now svc =
     (case getActiveTicketByVehicle (repository svc) (licensePlate v) of
        Some existingTicket \<Rightarrow>
          (Inl (AlreadyParked (licensePlate v) (spot existingTicket)), svc)
      | None \<Rightarrow>
          (case allocateSpot env (type_vehicle v) (licensePlate v) (repository svc) of
             (Inl e, repo1) \<Rightarrow> (Inl e, svc\<lparr>repository := repo1\<rparr>)
           | (Inr None, repo1) \<Rightarrow> (Inr None, svc\<lparr>repository := repo1\<rparr>)
           | (Inr (Some sp), repo1) \<Rightarrow>
               (let (tid, svc1) = generateTicketId (svc\<lparr>repository := repo1\<rparr>);
                    ticket = ParkingTicket_new tid v sp now
                in (Inr (Some ticket), svc1\<lparr>repository := addTicket ticket (repository svc1)\<rparr>))))"

text \<open>
  \<open>checkOutVehicle licensePlate\<close>. The clock is read twice: \<open>exit\<close> is the value of
  \<open>const exitTime = new Date()\<close>, and \<open>now\<close> is the value of the \<open>new Date()\<close> inside
  \<open>ticket.getDuration()\<close>, which is called while the ticket has no exit time yet. The
  completed ticket object is the one the store holds under its \<open>ticketId\<close>. An error of
  \<open>releaseSpot\<close> is thrown after the ticket has been completed.
\<close>

definition checkOutVehicle ::
  "runtime \<Rightarrow> string \<Rightarrow> int \<Rightarrow> int \<Rightarrow> ParkingLotService
     \<Rightarrow> (error + ParkingTicket) \<times> ParkingLotService"
where
  "checkOutVehicle env plate exit now svc =
     (case getActiveTicketByVehicle (repository svc) plate of
        None \<Rightarrow> (Inl (NoActiveSession plate), svc)
      | Some ticket \<Rightarrow>
          (let duration = getDuration env ticket now
           in case calculateFee env (feeCalculator svc) (type_vehicle (vehicle ticket)) duration of
                Inl e \<Rightarrow> (Inl e, svc)
              | Inr f \<Rightarrow>
                  (case complete exit f ticket of
                     (Inl e, _) \<Rightarrow> (Inl e, svc)
                   | (Inr _, ticket') \<Rightarrow>
                       (let repo1 = (repository svc)
                              \<lparr>tickets := AList.update (ticketId ticket') ticket'
                                            (tickets (repository svc))\<rparr>;
                            repo2 = completeTicket (ticketId ticket') repo1
                        in case releaseSpot (spot ticket') repo2 of
                             (Inl e, repo3) \<Rightarrow> (Inl e, svc\<lparr>repository := repo3\<rparr>)
                           | (Inr _, repo3) \<Rightarrow> (Inr ticket', svc\<lparr>repository := repo3\<rparr>)))))"

text \<open>
  \<open>initializeParkingLot floors spotsPerFloor\<close>. The three inner loops are \<open>addSpots\<close> with
  the letter and the spot type of the loop; all of them advance the one counter
  \<open>spotIdCounter\<close>. The outer loop runs the floor number \<open>fl\<close> from 1 to \<open>floors\<close>. The counts are
  natural numbers.
\<close>

fun addSpots ::
  "string \<Rightarrow> SpotType \<Rightarrow> nat \<Rightarrow> nat \<Rightarrow> nat \<times> ParkingLotRepository \<Rightarrow> nat \<times> ParkingLotRepository"
where
  "addSpots letter t fl 0 st = st"
| "addSpots letter t fl (Suc n) (spotIdCounter, repo) =
     addSpots letter t fl n
       (spotIdCounter + 1,
        addSpot (ParkingSpot_new (letter @ String_nat spotIdCounter) (int fl) t) repo)"

definition addFloor ::
  "(SpotType \<Rightarrow> nat) \<Rightarrow> nat \<Rightarrow> nat \<times> ParkingLotRepository \<Rightarrow> nat \<times> ParkingLotRepository"
where
  "addFloor spotsPerFloor fl st =
     addSpots ''L'' LARGE fl (spotsPerFloor LARGE)
       (addSpots ''C'' COMPACT fl (spotsPerFloor COMPACT)
          (addSpots ''M'' MOTORCYCLE_SPOT fl (spotsPerFloor MOTORCYCLE_SPOT) st))"

function floorLoop ::
  "nat \<Rightarrow> nat \<Rightarrow> (SpotType \<Rightarrow> nat) \<Rightarrow> nat \<times> ParkingLotRepository \<Rightarrow> nat \<times> ParkingLotRepository"
where
  "floorLoop fl floors spotsPerFloor st =
     (if fl \<le> floors
      then floorLoop (fl + 1) floors spotsPerFloor (addFloor spotsPerFloor fl st)
      else st)"
  by pat_completeness auto
termination
  by (relation "measure (\<lambda>(fl, floors, _, _). Suc floors - fl)") auto

declare floorLoop.simps [simp del]

definition initializeParkingLot ::
  "nat \<Rightarrow> (SpotType \<Rightarrow> nat) \<Rightarrow> ParkingLotService \<Rightarrow> ParkingLotService"
where
  "initializeParkingLot floors spotsPerFloor svc =
     svc\<lparr>repository := snd (floorLoop 1 floors spotsPerFloor (1, repository svc))\<rparr>"

section \<open>Runs of the system\<close>

text \<open>
  The operations a client can call after the set-up: the two of the service, and the two of
  the spot manager, which works on the repository of the service. A run applies a list of
  operations in order, whatever each one returns.
\<close>

datatype operation =
    CheckIn Vehicle int
  | CheckOut string int int
  | Allocate VehicleType string
  | Release string

fun apply_op :: "runtime \<Rightarrow> operation \<Rightarrow> ParkingLotService \<Rightarrow> ParkingLotService" where
  "apply_op env (CheckIn v now) svc = snd (checkInVehicle env v now svc)"
| "apply_op env (CheckOut plate exit now) svc = snd (checkOutVehicle env plate exit now svc)"
| "apply_op env (Allocate vt vehicleLicense) svc =
     svc\<lparr>repository := snd (allocateSpot env vt vehicleLicense (repository svc))\<rparr>"
| "apply_op env (Release spotId) svc =
     svc\<lparr>repository := snd (releaseSpot spotId (repository svc))\<rparr>"

fun run :: "runtime \<Rightarrow> operation list \<Rightarrow> ParkingLotService \<Rightarrow> ParkingLotService" where
  "run env [] svc = svc"
| "run env (op # ops) svc = run env ops (apply_op env op svc)"

text \<open>The initialized lot: a new repository and service, then \<open>initializeParkingLot\<close>.\<close>

definition initialLot :: "FeeCalculator \<Rightarrow> nat \<Rightarrow> (SpotType \<Rightarrow> nat) \<Rightarrow> ParkingLotService" where
  "initialLot fc floors spotsPerFloor =
     initializeParkingLot floors spotsPerFloor
       (ParkingLotService_new ParkingLotRepository_new fc)"

section \<open>Vocabulary of the statements\<close>

text \<open>
  The representation invariant of the spot map: a JavaScript \<open>Map\<close> has each key once, and
  \<open>addSpot\<close>, the only writer, stores a spot under its own identifier.
\<close>

definition spots_wf :: "ParkingLotRepository \<Rightarrow> bool" where
  "spots_wf repo \<longleftrightarrow>
     distinct (map fst (spots repo)) \<and> (\<forall>(k, sp) \<in> set (spots repo). id_spot sp = k)"

text \<open>The available spots of the repository that fit a vehicle type.\<close>

definition candidates :: "ParkingLotRepository \<Rightarrow> VehicleType \<Rightarrow> ParkingSpot set" where
  "candidates repo vt = {sp \<in> set (getAllSpots repo). isAvailable sp \<and> canFit sp vt}"

text \<open>
  The order of allocation with the lexicographic order of strings: the lower floor first,
  on one floor the identifier that is smaller in the lexicographic order (by character
  codes).
\<close>

definition spot_before :: "ParkingSpot \<Rightarrow> ParkingSpot \<Rightarrow> bool" where
  "spot_before a b \<longleftrightarrow>
     floor_spot a < floor_spot b \<or> (floor_spot a = floor_spot b \<and> id_spot a < id_spot b)"

text \<open>
  The order of allocation with the collation of the runtime: \<open>a\<close> is not after \<open>b\<close> when
  its floor is lower, or the floors are equal and \<open>localeCompare\<close> does not put its
  identifier after that of \<open>b\<close>.
\<close>

definition spot_not_after :: "runtime \<Rightarrow> ParkingSpot \<Rightarrow> ParkingSpot \<Rightarrow> bool" where
  "spot_not_after env a b \<longleftrightarrow>
     floor_spot a < floor_spot b
     \<or> (floor_spot a = floor_spot b \<and> localeCompare env (id_spot a) (id_spot b) \<le> 0)"

text \<open>
  The choice of the allocation: the earliest spot, in the order of insertion into the spot
  map, among the candidates that are not after any candidate.
\<close>

definition first_choice :: "runtime \<Rightarrow> ParkingLotRepository \<Rightarrow> VehicleType \<Rightarrow> ParkingSpot option" where
  "first_choice env repo vt =
     find (\<lambda>m. m \<in> candidates repo vt \<and> (\<forall>c \<in> candidates repo vt. spot_not_after env m c))
       (getAllSpots repo)"

text \<open>
  What the statements assume of \<open>localeCompare\<close>: it is a consistent comparator, that is,
  "not after" is transitive and any two strings are comparable.
\<close>

definition consistent_comparator :: "(string \<Rightarrow> string \<Rightarrow> int) \<Rightarrow> bool" where
  "consistent_comparator cmp \<longleftrightarrow>
     (\<forall>a b c. cmp a b \<le> 0 \<and> cmp b c \<le> 0 \<longrightarrow> cmp a c \<le> 0)
     \<and> (\<forall>a b. cmp a b \<le> 0 \<or> cmp b a \<le> 0)"

text \<open>
  The identifiers of the shape that \<open>initializeParkingLot\<close> generates: one of the letters
  M, C, L followed by one or more decimal digits. On these \<open>localeCompare\<close> orders
  as the lexicographic order does, which \<open>lexicographic_on_generated\<close> says of a runtime.
\<close>

definition generated_id :: "string \<Rightarrow> bool" where
  "generated_id s =
     (case s of
        [] \<Rightarrow> False
      | c # ds \<Rightarrow> c \<in> set ''MCL'' \<and> ds \<noteq> [] \<and> (\<forall>d \<in> set ds. d \<in> set ''0123456789''))"

definition lexicographic_on_generated :: "runtime \<Rightarrow> bool" where
  "lexicographic_on_generated env \<longleftrightarrow>
     (\<forall>a b. generated_id a \<and> generated_id b \<longrightarrow> (localeCompare env a b \<le> 0 \<longleftrightarrow> a \<le> b))"

section \<open>Example data\<close>

text \<open>
  The runtime of the examples: \<open>localeCompare\<close> compares the strings character by
  character by their codes, the shorter string first when one is a prefix of the other, and
  the arithmetic does not round. This is what the JavaScript runtime computes on the
  examples that use it: their identifiers have the generated shape, and their sums,
  differences, products and quotients are exact in doubles.
\<close>

fun codePointCompare :: "string \<Rightarrow> string \<Rightarrow> int" where
  "codePointCompare [] [] = 0"
| "codePointCompare [] (y # ys) = - 1"
| "codePointCompare (x # xs) [] = 1"
| "codePointCompare (x # xs) (y # ys) =
     (if (of_char x :: nat) < of_char y then - 1
      else if (of_char y :: nat) < of_char x then 1
      else codePointCompare xs ys)"

definition exactRuntime :: runtime where
  "exactRuntime =
     \<lparr>localeCompare = codePointCompare, num_add = (+), num_sub = (-), num_mul = (*),
      num_div = (/)\<rparr>"

text \<open>
  A runtime for identifiers that differ in case: as the collation of \<open>localeCompare\<close>
  does, its comparison orders letters alphabetically without regard to case, and puts the
  small letter first where two strings differ in case only. With it \<open>a1\<close> comes before
  \<open>B1\<close>. The store \<open>mixedCaseStore\<close> holds two compact spots on floor 1, added by
  \<open>addSpot\<close>: first \<open>B1\<close>, then \<open>a1\<close>.
\<close>

definition lower_char :: "char \<Rightarrow> char" where
  "lower_char c =
     (if 65 \<le> (of_char c :: nat) \<and> (of_char c :: nat) \<le> 90 then char_of ((of_char c :: nat) + 32)
      else c)"

definition caselessCompare :: "string \<Rightarrow> string \<Rightarrow> int" where
  "caselessCompare a b =
     (let r = codePointCompare (map lower_char a) (map lower_char b)
      in if r \<noteq> 0 then r else codePointCompare b a)"

definition caselessRuntime :: runtime where
  "caselessRuntime =
     \<lparr>localeCompare = caselessCompare, num_add = (+), num_sub = (-), num_mul = (*),
      num_div = (/)\<rparr>"

definition mixedCaseStore :: ParkingLotRepository where
  "mixedCaseStore =
     addSpot (ParkingSpot_new ''a1'' 1 COMPACT)
       (addSpot (ParkingSpot_new ''B1'' 1 COMPACT) ParkingLotRepository_new)"

text \<open>
  A lot of two floors with one motorcycle spot, two compact spots and one large spot on
  each floor, under the default rates, and three vehicles.
\<close>

definition exampleSpotsPerFloor :: "SpotType \<Rightarrow> nat" where
  "exampleSpotsPerFloor t = (case t of MOTORCYCLE_SPOT \<Rightarrow> 1 | COMPACT \<Rightarrow> 2 | LARGE \<Rightarrow> 1)"

definition exampleLot :: ParkingLotService where
  "exampleLot = initialLot (FeeCalculator_new None) 2 exampleSpotsPerFloor"

definition motorcycle1 :: Vehicle where
  "motorcycle1 = \<lparr>licensePlate = ''MC-001'', type_vehicle = MOTORCYCLE, ownerName = Some ''John''\<rparr>"

definition car1 :: Vehicle where
  "car1 = \<lparr>licensePlate = ''CAR-001'', type_vehicle = CAR, ownerName = Some ''Alice''\<rparr>"

definition bus1 :: Vehicle where
  "bus1 = \<lparr>licensePlate = ''BUS-001'', type_vehicle = BUS, ownerName = None\<rparr>"

text \<open>A lot with a single motorcycle spot, and a second motorcycle.\<close>

definition singleSpotPerFloor :: "SpotType \<Rightarrow> nat" where
  "singleSpotPerFloor t = (case t of MOTORCYCLE_SPOT \<Rightarrow> 1 | COMPACT \<Rightarrow> 0 | LARGE \<Rightarrow> 0)"

definition singleSpotLot :: ParkingLotService where
  "singleSpotLot = initialLot (FeeCalculator_new None) 1 singleSpotPerFloor"

definition motorcycle2 :: Vehicle where
  "motorcycle2 = \<lparr>licensePlate = ''MC-002'', type_vehicle = MOTORCYCLE, ownerName = Some ''Frank''\<rparr>"

text \<open>
  The two states of a ticket: active, with neither exit time nor fee, and completed, with
  both.
\<close>

definition ticket_state_ok :: "ParkingTicket \<Rightarrow> bool" where
  "ticket_state_ok t \<longleftrightarrow>
     (exitTime t = None \<and> fee t = None) \<or> (exitTime t \<noteq> None \<and> fee t \<noteq> None)"

text \<open>
  The vocabulary of the statements on \<open>initializeParkingLot\<close>: the letter of a spot type,
  and the spot types of one floor in the order of creation.
\<close>

fun letterOf :: "SpotType \<Rightarrow> string" where
  "letterOf MOTORCYCLE_SPOT = ''M''"
| "letterOf COMPACT = ''C''"
| "letterOf LARGE = ''L''"

definition floorTypes :: "(SpotType \<Rightarrow> nat) \<Rightarrow> SpotType list" where
  "floorTypes spf =
     replicate (spf MOTORCYCLE_SPOT) MOTORCYCLE_SPOT @ replicate (spf COMPACT) COMPACT
       @ replicate (spf LARGE) LARGE"

definition spotsPerFloorTotal :: "(SpotType \<Rightarrow> nat) \<Rightarrow> nat" where
  "spotsPerFloorTotal spf = spf MOTORCYCLE_SPOT + spf COMPACT + spf LARGE"

text \<open>
  The identifiers as the specification words them, with a running counter for each class:
  the spots of a class are numbered 1, 2, 3, ... in the order of their creation. This
  definition follows the specification, not the source, and is compared with the source.
\<close>

definition perClassSpotIds :: "nat \<Rightarrow> (SpotType \<Rightarrow> nat) \<Rightarrow> string list" where
  "perClassSpotIds floors spf =
     concat (map (\<lambda>fl. concat (map (\<lambda>t. map (\<lambda>i. letterOf t @ String_nat ((fl - 1) * spf t + i + 1))
                                              [0..<spf t])
                                    [MOTORCYCLE_SPOT, COMPACT, LARGE]))
                 [1..<Suc floors])"

text \<open>The number that a string of decimal digits denotes.\<close>

definition digit_val :: "char \<Rightarrow> nat" where
  "digit_val c = of_char c - 48"

definition decode_nat :: "string \<Rightarrow> nat" where
  "decode_nat s = foldl (\<lambda>a c. 10 * a + digit_val c) 0 s"

text \<open>
  The invariant of the loops of \<open>initializeParkingLot\<close> on a repository that they alone
  have filled, with \<open>c\<close> the value of \<open>spotIdCounter\<close>: the spot map is well formed, it has
  \<open>c - 1\<close> spots, the spot created as number \<open>k\<close> has the letter of its type followed by
  \<open>k\<close> as identifier, and every spot is available with no occupant.
\<close>

definition spots_numbered :: "nat \<Rightarrow> ParkingLotRepository \<Rightarrow> bool" where
  "spots_numbered c repo \<longleftrightarrow>
     spots_wf repo
     \<and> Suc (length (spots repo)) = c
     \<and> map id_spot (getAllSpots repo) =
         map2 (\<lambda>k t. letterOf t @ String_nat k) [1..<c] (map spotType (getAllSpots repo))
     \<and> (\<forall>sp \<in> set (getAllSpots repo). isAvailable sp \<and> currentVehicleLicense sp = None)"

section \<open>Invariants of the runs\<close>

text \<open>
  The ticket store is well formed when each key occurs once and every ticket is stored under
  its own \<open>ticketId\<close>, which the service generated from a counter value below the current
  one. The index is well formed when each entry leads to an active ticket of the vehicle of
  the entry.
\<close>

definition tickets_wf :: "ParkingLotService \<Rightarrow> bool" where
  "tickets_wf svc \<longleftrightarrow>
     distinct (map fst (tickets (repository svc)))
     \<and> (\<forall>(k, t) \<in> set (tickets (repository svc)).
           ticketId t = k \<and> (\<exists>n < ticketCounter svc. k = ticketIdOf n))"

definition index_wf :: "ParkingLotRepository \<Rightarrow> bool" where
  "index_wf repo \<longleftrightarrow>
     (\<forall>p tid. map_of (activeTicketsByVehicle repo) p = Some tid \<longrightarrow>
        (\<exists>t. map_of (tickets repo) tid = Some t \<and> isActive t \<and> licensePlate (vehicle t) = p))"

definition lot_inv :: "ParkingLotService \<Rightarrow> bool" where
  "lot_inv svc \<longleftrightarrow>
     spots_wf (repository svc) \<and> tickets_wf svc \<and> index_wf (repository svc)"

text \<open>
  The occupancy property: the spot of every active ticket is in the repository, is marked
  occupied, and its occupant is the vehicle of the ticket; two different active tickets
  refer to different spots.
\<close>

definition occupancy_inv :: "ParkingLotRepository \<Rightarrow> bool" where
  "occupancy_inv repo \<longleftrightarrow>
     (\<forall>t \<in> set (getActiveTickets repo).
        case getSpot repo (spot t) of
          None \<Rightarrow> False
        | Some sp \<Rightarrow> \<not> isAvailable sp
            \<and> currentVehicleLicense sp = Some (licensePlate (vehicle t)))
     \<and> (\<forall>t1 \<in> set (getActiveTickets repo). \<forall>t2 \<in> set (getActiveTickets repo).
           t1 \<noteq> t2 \<longrightarrow> spot t1 \<noteq> spot t2)"

text \<open>
  No reassignment between two states: a spot that is occupied in the first state is, in the
  second, available or occupied by the same vehicle.
\<close>

definition no_reassignment :: "ParkingLotRepository \<Rightarrow> ParkingLotRepository \<Rightarrow> bool" where
  "no_reassignment repo repo' \<longleftrightarrow>
     (\<forall>(k, sp) \<in> set (spots repo).
        \<not> isAvailable sp \<longrightarrow>
          (case getSpot repo' k of
             None \<Rightarrow> False
           | Some sp' \<Rightarrow> isAvailable sp' \<or> currentVehicleLicense sp' = currentVehicleLicense sp))"

text \<open>
  A run in which \<open>releaseSpot\<close> is never called from outside on the spot of an active
  ticket (the release that \<open>checkOutVehicle\<close> performs itself is part of the check-out).
\<close>

fun op_allowed :: "operation \<Rightarrow> ParkingLotService \<Rightarrow> bool" where
  "op_allowed (Release spotId) svc =
     (spotId \<notin> set (map spot (getActiveTickets (repository svc))))"
| "op_allowed _ svc = True"

fun run_allowed :: "runtime \<Rightarrow> operation list \<Rightarrow> ParkingLotService \<Rightarrow> bool" where
  "run_allowed env [] svc = True"
| "run_allowed env (op # ops) svc =
     (op_allowed op svc \<and> run_allowed env ops (apply_op env op svc))"

text \<open>An operation of the service on the vehicle with a given licence plate.\<close>

fun op_on :: "string \<Rightarrow> operation \<Rightarrow> bool" where
  "op_on plate (CheckIn v now) = (licensePlate v = plate)"
| "op_on plate (CheckOut p exit now) = (p = plate)"
| "op_on plate _ = False"

text \<open>
  The session \<open>S\<close> is kept in a state: the index leads from the licence plate of its vehicle
  to the ticket \<open>S\<close>, which the store holds unchanged, the spot of \<open>S\<close> is in the repository,
  and the fee calculator is \<open>fc\<close>.
\<close>

definition session_kept :: "ParkingTicket \<Rightarrow> FeeCalculator \<Rightarrow> ParkingLotService \<Rightarrow> bool" where
  "session_kept S fc svc \<longleftrightarrow>
     map_of (activeTicketsByVehicle (repository svc)) (licensePlate (vehicle S)) = Some (ticketId S)
     \<and> map_of (tickets (repository svc)) (ticketId S) = Some S
     \<and> getSpot (repository svc) (spot S) \<noteq> None
     \<and> feeCalculator svc = fc"

text \<open>A lot whose fee calculator was built with the rate of motorcycles only.\<close>

definition motorcycleRateLot :: ParkingLotService where
  "motorcycleRateLot =
     initialLot (FeeCalculator_new (Some [\<lparr>vehicleType = MOTORCYCLE, baseFee = 2, hourlyRate = 1\<rparr>]))
       2 exampleSpotsPerFloor"

section \<open>Fee computation\<close>

lemma FeeCalculator_default_MOTORCYCLE:
  "FeeCalculator_new None MOTORCYCLE = Some \<lparr>vehicleType = MOTORCYCLE, baseFee = 2, hourlyRate = 1\<rparr>"
  by (simp add: FeeCalculator_new_def defaultRates_def setRate_def)

lemma FeeCalculator_default_CAR:
  "FeeCalculator_new None CAR = Some \<lparr>vehicleType = CAR, baseFee = 5, hourlyRate = 5 / 2\<rparr>"
  by (simp add: FeeCalculator_new_def defaultRates_def setRate_def)

lemma FeeCalculator_default_BUS:
  "FeeCalculator_new None BUS = Some \<lparr>vehicleType = BUS, baseFee = 10, hourlyRate = 5\<rparr>"
  by (simp add: FeeCalculator_new_def defaultRates_def setRate_def)

lemma exactRuntime_simps:
  "num_add exactRuntime x y = x + y" "num_sub exactRuntime x y = x - y"
  "num_mul exactRuntime x y = x * y"
  "num_div exactRuntime x y = x / y" "localeCompare exactRuntime = codePointCompare"
  by (simp_all add: exactRuntime_def)

text \<open>
  Claim C4. For a vehicle type with a registered rate and any duration \<open>d\<close>, the fee is
  computed from the ceiling of \<open>d\<close>: the base fee when the ceiling is at most 1, else the
  base fee plus (ceiling - 1) times the hourly rate, the difference, the product and the
  sum being those of the runtime's numbers; where these three are exact, the fee is the
  exact value of the formula. The calculator built without an argument holds the rates
  motorcycle 2 / 1, car 5 / 2.5 and bus 10 / 5.
\<close>

theorem calculateFee_formula:
  "(rates vt = Some rate \<longrightarrow>
      calculateFee env rates vt d =
        Inr (if \<lceil>d\<rceil> \<le> 1 then baseFee rate
             else num_add env (baseFee rate)
                    (num_mul env (num_sub env (of_int \<lceil>d\<rceil>) 1) (hourlyRate rate))))
   \<and> (rates vt = Some rate
        \<and> num_sub env (of_int \<lceil>d\<rceil>) 1 = of_int \<lceil>d\<rceil> - 1
        \<and> num_mul env (of_int \<lceil>d\<rceil> - 1) (hourlyRate rate) =
            (of_int \<lceil>d\<rceil> - 1) * hourlyRate rate
        \<and> num_add env (baseFee rate) ((of_int \<lceil>d\<rceil> - 1) * hourlyRate rate) =
            baseFee rate + (of_int \<lceil>d\<rceil> - 1) * hourlyRate rate \<longrightarrow>
      calculateFee env rates vt d =
        Inr (if \<lceil>d\<rceil> \<le> 1 then baseFee rate
             else baseFee rate + (of_int \<lceil>d\<rceil> - 1) * hourlyRate rate))
   \<and> map_option (\<lambda>r. (baseFee r, hourlyRate r)) (FeeCalculator_new None MOTORCYCLE) = Some (2, 1)
   \<and> map_option (\<lambda>r. (baseFee r, hourlyRate r)) (FeeCalculator_new None CAR) = Some (5, 5 / 2)
   \<and> map_option (\<lambda>r. (baseFee r, hourlyRate r)) (FeeCalculator_new None BUS) = Some (10, 5)"
  by (simp add: calculateFee_def Let_def FeeCalculator_default_MOTORCYCLE
      FeeCalculator_default_CAR FeeCalculator_default_BUS)

theorem calculateFee_formula_witness:
  "FeeCalculator_new None BUS = Some \<lparr>vehicleType = BUS, baseFee = 10, hourlyRate = 5\<rparr>
   \<and> num_sub exactRuntime (of_int \<lceil>9 / 4 :: real\<rceil>) 1 = of_int \<lceil>9 / 4 :: real\<rceil> - 1
   \<and> num_mul exactRuntime (of_int \<lceil>9 / 4 :: real\<rceil> - 1) 5 = (of_int \<lceil>9 / 4 :: real\<rceil> - 1) * 5
   \<and> num_add exactRuntime 10 ((of_int \<lceil>9 / 4 :: real\<rceil> - 1) * 5) =
       10 + (of_int \<lceil>9 / 4 :: real\<rceil> - 1) * 5
   \<and> calculateFee exactRuntime (FeeCalculator_new None) BUS (9 / 4) = Inr 20"
proof -
  let ?rate = "\<lparr>vehicleType = BUS, baseFee = 10, hourlyRate = 5\<rparr>"
  have r: "FeeCalculator_new None BUS = Some ?rate" by (rule FeeCalculator_default_BUS)
  have s: "num_sub exactRuntime (of_int \<lceil>9 / 4 :: real\<rceil>) 1 = of_int \<lceil>9 / 4 :: real\<rceil> - 1"
    by (simp only: exactRuntime_simps)
  have m: "num_mul exactRuntime (of_int \<lceil>9 / 4 :: real\<rceil> - 1) (hourlyRate ?rate) =
      (of_int \<lceil>9 / 4 :: real\<rceil> - 1) * hourlyRate ?rate"
    by (simp only: exactRuntime_simps)
  have a: "num_add exactRuntime (baseFee ?rate) ((of_int \<lceil>9 / 4 :: real\<rceil> - 1) * hourlyRate ?rate) =
      baseFee ?rate + (of_int \<lceil>9 / 4 :: real\<rceil> - 1) * hourlyRate ?rate"
    by (simp only: exactRuntime_simps)
  from calculateFee_formula[where env = exactRuntime and rates = "FeeCalculator_new None"
      and vt = BUS and rate = ?rate and d = "9 / 4", THEN conjunct2, THEN conjunct1] r s m a
  have "calculateFee exactRuntime (FeeCalculator_new None) BUS (9 / 4) =
      Inr (if \<lceil>9 / 4 :: real\<rceil> \<le> 1 then baseFee ?rate
           else baseFee ?rate + (of_int \<lceil>9 / 4 :: real\<rceil> - 1) * hourlyRate ?rate)"
    by blast
  then have f: "calculateFee exactRuntime (FeeCalculator_new None) BUS (9 / 4) = Inr 20"
    by simp
  from r s m a f show ?thesis by simp
qed

text \<open>
  Claim C5, as the code computes it. Under the default rates a car parked for 3.5 hours
  pays 12.50: the ceiling is 4 hours, three of them additional, so 5 + 3 * 2.5. A
  motorcycle parked for half an hour pays the base fee 2. The first holds with every
  runtime whose difference 4 - 1, product 3 * 2.5 and sum 5 + 7.5 are exact, as they are in
  doubles, the second with every runtime; both hold in particular with the runtime of the
  examples.
\<close>

theorem calculateFee_examples:
  "calculateFee exactRuntime (FeeCalculator_new None) CAR (7 / 2) = Inr (25 / 2)
   \<and> calculateFee exactRuntime (FeeCalculator_new None) MOTORCYCLE (1 / 2) = Inr 2
   \<and> (num_sub env 4 1 = 3 \<and> num_mul env 3 (5 / 2) = 15 / 2 \<and> num_add env 5 (15 / 2) = 25 / 2 \<longrightarrow>
        calculateFee env (FeeCalculator_new None) CAR (7 / 2) = Inr (25 / 2))
   \<and> calculateFee env (FeeCalculator_new None) MOTORCYCLE (1 / 2) = Inr 2"
proof (intro conjI impI)
  show "calculateFee exactRuntime (FeeCalculator_new None) CAR (7 / 2) = Inr (25 / 2)"
    by (simp add: calculateFee_def FeeCalculator_default_CAR exactRuntime_simps)
  show "calculateFee exactRuntime (FeeCalculator_new None) MOTORCYCLE (1 / 2) = Inr 2"
    by (simp add: calculateFee_def FeeCalculator_default_MOTORCYCLE)
  show "calculateFee env (FeeCalculator_new None) MOTORCYCLE (1 / 2) = Inr 2"
    by (simp add: calculateFee_def FeeCalculator_default_MOTORCYCLE)
  assume h: "num_sub env 4 1 = 3 \<and> num_mul env 3 (5 / 2) = 15 / 2 \<and> num_add env 5 (15 / 2) = 25 / 2"
  have "calculateFee env (FeeCalculator_new None) CAR (7 / 2) =
      Inr (num_add env 5 (num_mul env (num_sub env 4 1) (5 / 2)))"
    by (simp add: calculateFee_def FeeCalculator_default_CAR)
  also have "num_add env 5 (num_mul env (num_sub env 4 1) (5 / 2)) = 25 / 2"
    using h by (simp only:)
  finally show "calculateFee env (FeeCalculator_new None) CAR (7 / 2) = Inr (25 / 2)" .
qed

theorem calculateFee_examples_witness:
  "num_sub exactRuntime 4 1 = 3
   \<and> num_mul exactRuntime 3 (5 / 2) = 15 / 2 \<and> num_add exactRuntime 5 (15 / 2) = 25 / 2
   \<and> calculateFee exactRuntime (FeeCalculator_new None) CAR (7 / 2) = Inr (25 / 2)"
proof -
  have h: "num_sub exactRuntime 4 1 = 3
      \<and> num_mul exactRuntime 3 (5 / 2) = 15 / 2 \<and> num_add exactRuntime 5 (15 / 2) = 25 / 2"
    by (simp add: exactRuntime_simps)
  from calculateFee_examples[where env = exactRuntime, THEN conjunct2, THEN conjunct2,
      THEN conjunct1, rule_format, OF h] h
  show ?thesis by simp
qed

text \<open>The fee of a car parked for 3.5 hours is not 10.\<close>

theorem calculateFee_car_not_10:
  "calculateFee exactRuntime (FeeCalculator_new None) CAR (7 / 2) \<noteq> Inr 10"
  by (simp add: calculateFee_def FeeCalculator_default_CAR exactRuntime_simps)

section \<open>Allocation\<close>

lemma codePointCompare_less: "codePointCompare a b < 0 \<longleftrightarrow> a < b"
  by (induction a b rule: codePointCompare.induct) (auto simp: less_char_def)

lemma codePointCompare_eq: "codePointCompare a b = 0 \<longleftrightarrow> a = b"
  by (induction a b rule: codePointCompare.induct) (auto simp: less_char_def)

lemma codePointCompare_le: "codePointCompare a b \<le> 0 \<longleftrightarrow> a \<le> b"
  using codePointCompare_less[of a b] codePointCompare_eq[of a b]
  by (auto simp: order.order_iff_strict)

lemma exactRuntime_consistent: "consistent_comparator (localeCompare exactRuntime)"
  by (auto simp: consistent_comparator_def exactRuntime_simps codePointCompare_le)

lemma exactRuntime_lexicographic: "lexicographic_on_generated exactRuntime"
  by (simp add: lexicographic_on_generated_def exactRuntime_simps codePointCompare_le)

lemma compareSpots_le: "compareSpots env a b \<le> 0 \<longleftrightarrow> spot_not_after env a b"
  by (auto simp: compareSpots_def spot_not_after_def)

lemma compareSpots_trans:
  assumes "consistent_comparator (localeCompare env)"
    and "compareSpots env a b \<le> 0" "compareSpots env b c \<le> 0"
  shows "compareSpots env a c \<le> 0"
proof -
  from assms(1) have tr: "localeCompare env x y \<le> 0 \<Longrightarrow> localeCompare env y z \<le> 0 \<Longrightarrow>
      localeCompare env x z \<le> 0" for x y z
    unfolding consistent_comparator_def by blast
  from assms(2,3) show ?thesis
    unfolding compareSpots_le spot_not_after_def using tr by force
qed

lemma compareSpots_total:
  assumes "consistent_comparator (localeCompare env)"
  shows "compareSpots env a b \<le> 0 \<or> compareSpots env b a \<le> 0"
proof -
  from assms have "localeCompare env (id_spot a) (id_spot b) \<le> 0
      \<or> localeCompare env (id_spot b) (id_spot a) \<le> 0"
    unfolding consistent_comparator_def by blast
  then show ?thesis unfolding compareSpots_le spot_not_after_def by force
qed

lemma set_insert_cmp: "set (insert_cmp cmp x ys) = insert x (set ys)"
  by (induction ys) auto

lemma set_sort_cmp: "set (sort_cmp cmp xs) = set xs"
  by (induction xs) (auto simp: sort_cmp_def set_insert_cmp)

lemma sort_cmp_Cons: "sort_cmp cmp (x # xs) = insert_cmp cmp x (sort_cmp cmp xs)"
  by (simp add: sort_cmp_def)

lemma sort_cmp_eq_Nil: "sort_cmp cmp xs = [] \<longleftrightarrow> xs = []"
  using set_sort_cmp[of cmp xs] by (metis set_empty)

lemma hd_insert_cmp:
  "hd (insert_cmp cmp x ys) = (if ys = [] \<or> cmp x (hd ys) \<le> 0 then x else hd ys)"
  by (cases ys) simp_all

text \<open>
  The first element of the sorted list is the earliest element of the input that is not
  after any element: the sort is stable.
\<close>

lemma find_least_sort_cmp:
  assumes tr: "\<And>a b c. cmp a b \<le> 0 \<Longrightarrow> cmp b c \<le> 0 \<Longrightarrow> cmp a c \<le> (0::int)"
    and tot: "\<And>a b. cmp a b \<le> 0 \<or> cmp b a \<le> 0"
    and ne: "xs \<noteq> []"
  shows "find (\<lambda>m. \<forall>y \<in> set xs. cmp m y \<le> 0) xs = Some (hd (sort_cmp cmp xs))"
  using ne
proof (induction xs)
  case Nil
  then show ?case by simp
next
  case (Cons x xs)
  have cmp_refl: "cmp a a \<le> 0" for a using tot[of a a] by simp
  show ?case
  proof (cases "xs = []")
    case True
    then show ?thesis by (simp add: sort_cmp_def cmp_refl)
  next
    case False
    let ?h = "hd (sort_cmp cmp xs)"
    from Cons.IH[OF False]
    have ih: "find (\<lambda>m. \<forall>y \<in> set xs. cmp m y \<le> 0) xs = Some ?h" .
    then have h_in: "?h \<in> set xs" and h_least: "\<forall>y \<in> set xs. cmp ?h y \<le> 0"
      by (auto simp: find_Some_iff)
    from False have sne: "sort_cmp cmp xs \<noteq> []" by (simp add: sort_cmp_eq_Nil)
    show ?thesis
    proof (cases "cmp x ?h \<le> 0")
      case True
      then have "\<forall>y \<in> set (x # xs). cmp x y \<le> 0"
        using h_least cmp_refl tr by auto
      moreover have "hd (sort_cmp cmp (x # xs)) = x"
        using True sne by (simp add: sort_cmp_Cons hd_insert_cmp)
      ultimately show ?thesis by simp
    next
      case no: False
      then have hx: "cmp ?h x \<le> 0" using tot[of x ?h] by simp
      have hd: "hd (sort_cmp cmp (x # xs)) = ?h"
        using no sne by (simp add: sort_cmp_Cons hd_insert_cmp)
      have notx: "\<not> (\<forall>y \<in> set (x # xs). cmp x y \<le> 0)"
        using no h_in by auto
      have same: "(\<forall>y \<in> set (x # xs). cmp m y \<le> 0) \<longleftrightarrow> (\<forall>y \<in> set xs. cmp m y \<le> 0)"
        if "m \<in> set xs" for m
      proof
        assume "\<forall>y \<in> set (x # xs). cmp m y \<le> 0"
        then show "\<forall>y \<in> set xs. cmp m y \<le> 0" by simp
      next
        assume a: "\<forall>y \<in> set xs. cmp m y \<le> 0"
        with h_in have "cmp m ?h \<le> 0" by blast
        from tr[OF this hx] a show "\<forall>y \<in> set (x # xs). cmp m y \<le> 0" by simp
      qed
      have "find (\<lambda>m. \<forall>y \<in> set (x # xs). cmp m y \<le> 0) (x # xs) =
          find (\<lambda>m. \<forall>y \<in> set (x # xs). cmp m y \<le> 0) xs"
        by (simp only: find.simps notx if_False)
      also have "\<dots> = find (\<lambda>m. \<forall>y \<in> set xs. cmp m y \<le> 0) xs"
        by (rule find_cong[OF refl]) (rule same)
      also note ih
      finally show ?thesis unfolding hd .
    qed
  qed
qed

lemma find_filter: "find P (filter Q xs) = find (\<lambda>m. Q m \<and> P m) xs"
  by (induction xs) auto

lemma spots_wf_id_inj:
  assumes "spots_wf repo" "a \<in> set (getAllSpots repo)" "b \<in> set (getAllSpots repo)"
    "id_spot a = id_spot b"
  shows "a = b"
proof -
  from assms(2,3) obtain ka kb where "(ka, a) \<in> set (spots repo)" "(kb, b) \<in> set (spots repo)"
    by (auto simp: getAllSpots_def)
  moreover from this assms(1) have "ka = id_spot a" "kb = id_spot b"
    by (auto simp: spots_wf_def)
  ultimately show ?thesis using assms(1,4)
    by (metis spots_wf_def map_of_is_SomeI option.inject)
qed

lemma candidates_filter:
  "set (filter (\<lambda>sp. canFit sp vt) (getAvailableSpots repo)) = candidates repo vt"
  by (auto simp: candidates_def getAvailableSpots_def)

lemma allocateSpot_None:
  assumes "candidates repo vt = {}"
  shows "allocateSpot env vt lic repo = (Inr None, repo)"
proof -
  have "filter (\<lambda>sp. canFit sp vt) (getAvailableSpots repo) = []"
    using assms candidates_filter[of vt repo] by (metis set_empty)
  then show ?thesis by (simp add: allocateSpot_def sort_cmp_def)
qed

lemma allocateSpot_hd:
  assumes "filter (\<lambda>sp. canFit sp vt) (getAvailableSpots repo) \<noteq> []"
  shows "allocateSpot env vt lic repo =
    (Inr (Some ((hd (sort_cmp (compareSpots env) (filter (\<lambda>sp. canFit sp vt) (getAvailableSpots repo))))
            \<lparr>isAvailable := False, currentVehicleLicense := Some lic\<rparr>)),
     repo\<lparr>spots := AList.update
        (id_spot (hd (sort_cmp (compareSpots env) (filter (\<lambda>sp. canFit sp vt) (getAvailableSpots repo)))))
        ((hd (sort_cmp (compareSpots env) (filter (\<lambda>sp. canFit sp vt) (getAvailableSpots repo))))
            \<lparr>isAvailable := False, currentVehicleLicense := Some lic\<rparr>) (spots repo)\<rparr>)"
    and "hd (sort_cmp (compareSpots env) (filter (\<lambda>sp. canFit sp vt) (getAvailableSpots repo)))
      \<in> candidates repo vt"
proof -
  let ?xs = "filter (\<lambda>sp. canFit sp vt) (getAvailableSpots repo)"
  from assms have "sort_cmp (compareSpots env) ?xs \<noteq> []" by (simp only: sort_cmp_eq_Nil not_False_eq_True)
  then obtain sel rest where hd: "sort_cmp (compareSpots env) ?xs = sel # rest"
    by (cases "sort_cmp (compareSpots env) ?xs") auto
  have "sel \<in> set (sort_cmp (compareSpots env) ?xs)" by (simp add: hd)
  then have "sel \<in> set ?xs" by (simp only: set_sort_cmp)
  then have c: "sel \<in> candidates repo vt" by (simp only: candidates_filter)
  then have "isAvailable sel" by (simp add: candidates_def)
  then have "allocateSpot env vt lic repo =
      (Inr (Some (sel\<lparr>isAvailable := False, currentVehicleLicense := Some lic\<rparr>)),
       repo\<lparr>spots := AList.update (id_spot sel)
          (sel\<lparr>isAvailable := False, currentVehicleLicense := Some lic\<rparr>) (spots repo)\<rparr>)"
    using hd by (simp add: allocateSpot_def occupy_def)
  moreover have "hd (sort_cmp (compareSpots env) ?xs) = sel" by (simp add: hd)
  ultimately show "allocateSpot env vt lic repo =
    (Inr (Some ((hd (sort_cmp (compareSpots env) ?xs))
            \<lparr>isAvailable := False, currentVehicleLicense := Some lic\<rparr>)),
     repo\<lparr>spots := AList.update (id_spot (hd (sort_cmp (compareSpots env) ?xs)))
        ((hd (sort_cmp (compareSpots env) ?xs))
            \<lparr>isAvailable := False, currentVehicleLicense := Some lic\<rparr>) (spots repo)\<rparr>)"
    and "hd (sort_cmp (compareSpots env) ?xs) \<in> candidates repo vt"
    using c by simp_all
qed

lemma allocateSpot_Some:
  assumes "candidates repo vt \<noteq> {}"
  shows "\<exists>sel \<in> candidates repo vt.
           allocateSpot env vt lic repo =
               (Inr (Some (sel\<lparr>isAvailable := False, currentVehicleLicense := Some lic\<rparr>)),
                repo\<lparr>spots := AList.update (id_spot sel)
                   (sel\<lparr>isAvailable := False, currentVehicleLicense := Some lic\<rparr>) (spots repo)\<rparr>)"
proof -
  have "filter (\<lambda>sp. canFit sp vt) (getAvailableSpots repo) \<noteq> []"
    using assms candidates_filter[of vt repo] by (metis set_empty)
  from allocateSpot_hd(1)[OF this, where env = env and lic = lic] allocateSpot_hd(2)[OF this, where env = env]
  show ?thesis by blast
qed

text \<open>
  With a consistent comparator the spot that \<open>allocateSpot\<close> selects is the earliest
  inserted of the candidates that are not after any candidate.
\<close>

lemma first_choice_sorted:
  assumes cmp: "consistent_comparator (localeCompare env)"
  shows "first_choice env repo vt =
    (if filter (\<lambda>sp. canFit sp vt) (getAvailableSpots repo) = [] then None
     else Some (hd (sort_cmp (compareSpots env)
                  (filter (\<lambda>sp. canFit sp vt) (getAvailableSpots repo)))))"
proof -
  let ?all = "getAllSpots repo"
  let ?Q = "\<lambda>m. isAvailable m \<and> canFit m vt"
  let ?xs = "filter (\<lambda>sp. canFit sp vt) (getAvailableSpots repo)"
  have xs: "?xs = filter ?Q ?all"
    by (simp add: getAvailableSpots_def conj_commute)
  have cands: "candidates repo vt = set ?xs" by (simp only: candidates_filter)
  have "first_choice env repo vt =
      find (\<lambda>m. m \<in> set ?xs \<and> (\<forall>c \<in> set ?xs. compareSpots env m c \<le> 0)) ?all"
    by (simp only: first_choice_def cands compareSpots_le)
  also have "\<dots> = find (\<lambda>m. ?Q m \<and> (\<forall>c \<in> set ?xs. compareSpots env m c \<le> 0)) ?all"
    by (rule find_cong) (auto simp: xs)
  also have "\<dots> = find (\<lambda>m. \<forall>c \<in> set ?xs. compareSpots env m c \<le> 0) (filter ?Q ?all)"
    by (simp only: find_filter)
  also have "\<dots> = find (\<lambda>m. \<forall>c \<in> set ?xs. compareSpots env m c \<le> 0) ?xs"
    by (simp only: xs)
  finally have fc: "first_choice env repo vt =
      find (\<lambda>m. \<forall>c \<in> set ?xs. compareSpots env m c \<le> 0) ?xs" .
  show ?thesis
  proof (cases "?xs = []")
    case True
    with fc show ?thesis by simp
  next
    case False
    have "find (\<lambda>m. \<forall>y \<in> set ?xs. compareSpots env m y \<le> 0) ?xs =
        Some (hd (sort_cmp (compareSpots env) ?xs))"
      by (rule find_least_sort_cmp[OF compareSpots_trans[OF cmp] compareSpots_total[OF cmp] False])
    with fc False show ?thesis by simp
  qed
qed

text \<open>
  Claim C1, with the order of identifiers that the code uses. On a well-formed spot map and
  with a consistent \<open>localeCompare\<close>, \<open>allocateSpot\<close> returns \<open>null\<close> and changes nothing
  exactly when no available spot fits the vehicle type. Otherwise it selects, among the
  candidates that are not after any candidate in the order (floor, then identifier as
  \<open>localeCompare\<close> orders them), the one inserted first; it returns this spot marked
  occupied by the given licence and stores exactly this change: the selected spot is
  occupied, every other spot is as before. Where the identifiers of the candidates have the
  generated shape, on which \<open>localeCompare\<close> is the lexicographic order, the selected spot
  is before every other candidate in the order (floor, then identifier lexicographically).
  A motorcycle spot fits motorcycles only, a compact spot motorcycles and cars, a large
  spot every vehicle.
\<close>

theorem allocateSpot_first_fit:
  assumes wf: "spots_wf repo" and cmp: "consistent_comparator (localeCompare env)"
  shows "(first_choice env repo vt = None \<longleftrightarrow> candidates repo vt = {})
    \<and> (candidates repo vt = {} \<longrightarrow> allocateSpot env vt lic repo = (Inr None, repo))
    \<and> (\<forall>sel. first_choice env repo vt = Some sel \<longrightarrow>
          sel \<in> candidates repo vt
          \<and> (\<forall>c \<in> candidates repo vt. spot_not_after env sel c)
          \<and> allocateSpot env vt lic repo =
              (Inr (Some (sel\<lparr>isAvailable := False, currentVehicleLicense := Some lic\<rparr>)),
               repo\<lparr>spots := AList.update (id_spot sel)
                  (sel\<lparr>isAvailable := False, currentVehicleLicense := Some lic\<rparr>) (spots repo)\<rparr>)
          \<and> getSpot (snd (allocateSpot env vt lic repo)) (id_spot sel) =
              Some (sel\<lparr>isAvailable := False, currentVehicleLicense := Some lic\<rparr>)
          \<and> (\<forall>k. k \<noteq> id_spot sel \<longrightarrow>
                getSpot (snd (allocateSpot env vt lic repo)) k = getSpot repo k)
          \<and> ((\<forall>c \<in> candidates repo vt. generated_id (id_spot c))
               \<and> lexicographic_on_generated env \<longrightarrow>
             (\<forall>c \<in> candidates repo vt. c \<noteq> sel \<longrightarrow> spot_before sel c)))
    \<and> (\<forall>sp v. canFit sp v \<longleftrightarrow>
          (spotType sp = MOTORCYCLE_SPOT \<and> v = MOTORCYCLE)
          \<or> (spotType sp = COMPACT \<and> (v = MOTORCYCLE \<or> v = CAR))
          \<or> spotType sp = LARGE)"
proof (intro conjI allI impI ballI)
  let ?xs = "filter (\<lambda>sp. canFit sp vt) (getAvailableSpots repo)"
  note fc = first_choice_sorted[OF cmp, of repo vt]
  have empty: "?xs = [] \<longleftrightarrow> candidates repo vt = {}"
    using candidates_filter[of vt repo] by (metis set_empty)
  show "first_choice env repo vt = None \<longleftrightarrow> candidates repo vt = {}"
    using fc empty by (auto split: if_splits)
  show "candidates repo vt = {} \<Longrightarrow> allocateSpot env vt lic repo = (Inr None, repo)"
    by (rule allocateSpot_None)
  show "canFit sp v \<longleftrightarrow>
          (spotType sp = MOTORCYCLE_SPOT \<and> v = MOTORCYCLE)
          \<or> (spotType sp = COMPACT \<and> (v = MOTORCYCLE \<or> v = CAR))
          \<or> spotType sp = LARGE" for sp v
    by (auto simp: canFit_def split: SpotType.splits)
  fix sel
  assume sel: "first_choice env repo vt = Some sel"
  with fc have ne: "?xs \<noteq> []" and hd: "hd (sort_cmp (compareSpots env) ?xs) = sel"
    by (auto split: if_splits)
  from allocateSpot_hd(2)[OF ne, where env = env]
    allocateSpot_hd(1)[OF ne, where env = env and lic = lic]
  show mem: "sel \<in> candidates repo vt"
    and res: "allocateSpot env vt lic repo =
        (Inr (Some (sel\<lparr>isAvailable := False, currentVehicleLicense := Some lic\<rparr>)),
         repo\<lparr>spots := AList.update (id_spot sel)
            (sel\<lparr>isAvailable := False, currentVehicleLicense := Some lic\<rparr>) (spots repo)\<rparr>)"
    unfolding hd by simp_all
  from sel have least: "\<forall>c \<in> candidates repo vt. spot_not_after env sel c"
    by (auto simp: first_choice_def find_Some_iff)
  then show "spot_not_after env sel c" if "c \<in> candidates repo vt" for c
    using that by blast
  show "getSpot (snd (allocateSpot env vt lic repo)) (id_spot sel) =
        Some (sel\<lparr>isAvailable := False, currentVehicleLicense := Some lic\<rparr>)"
    by (simp add: res getSpot_def update_conv')
  show "getSpot (snd (allocateSpot env vt lic repo)) k = getSpot repo k" if "k \<noteq> id_spot sel" for k
    using that by (simp add: res getSpot_def update_conv')
  show "spot_before sel c"
    if gen: "(\<forall>c \<in> candidates repo vt. generated_id (id_spot c)) \<and> lexicographic_on_generated env"
      and c: "c \<in> candidates repo vt" "c \<noteq> sel" for c
  proof -
    from c mem have ne_id: "id_spot c \<noteq> id_spot sel"
      using spots_wf_id_inj[OF wf, of c sel] by (auto simp: candidates_def)
    from gen c(1) mem have "localeCompare env (id_spot sel) (id_spot c) \<le> 0 \<longleftrightarrow>
        id_spot sel \<le> id_spot c"
      unfolding lexicographic_on_generated_def by blast
    moreover from least c(1) have "spot_not_after env sel c" by blast
    ultimately show ?thesis using ne_id
      by (auto simp: spot_not_after_def spot_before_def)
  qed
qed

theorem allocateSpot_first_fit_witness:
  "spots_wf (repository exampleLot)
   \<and> consistent_comparator (localeCompare exactRuntime)
   \<and> map id_spot (getAllSpots (repository exampleLot)) =
       [''M1'', ''C2'', ''C3'', ''L4'', ''M5'', ''C6'', ''C7'', ''L8'']
   \<and> first_choice exactRuntime (repository exampleLot) MOTORCYCLE =
       Some \<lparr>id_spot = ''C2'', floor_spot = 1, spotType = COMPACT, isAvailable = True,
             currentVehicleLicense = None\<rparr>
   \<and> fst (allocateSpot exactRuntime MOTORCYCLE ''MC-001'' (repository exampleLot)) =
       Inr (Some \<lparr>id_spot = ''C2'', floor_spot = 1, spotType = COMPACT, isAvailable = False,
                  currentVehicleLicense = Some ''MC-001''\<rparr>)
   \<and> candidates (repository exampleLot) MOTORCYCLE \<subseteq> {c. generated_id (id_spot c)}
   \<and> lexicographic_on_generated exactRuntime
   \<and> \<lparr>id_spot = ''M1'', floor_spot = 1, spotType = MOTORCYCLE_SPOT, isAvailable = True,
        currentVehicleLicense = None\<rparr> \<in> candidates (repository exampleLot) MOTORCYCLE
   \<and> spot_before
        \<lparr>id_spot = ''C2'', floor_spot = 1, spotType = COMPACT, isAvailable = True,
          currentVehicleLicense = None\<rparr>
        \<lparr>id_spot = ''M1'', floor_spot = 1, spotType = MOTORCYCLE_SPOT, isAvailable = True,
          currentVehicleLicense = None\<rparr>"
proof -
  let ?R = "repository exampleLot"
  let ?C2 = "\<lparr>id_spot = ''C2'', floor_spot = 1, spotType = COMPACT, isAvailable = True,
             currentVehicleLicense = None\<rparr>"
  let ?M1 = "\<lparr>id_spot = ''M1'', floor_spot = 1, spotType = MOTORCYCLE_SPOT, isAvailable = True,
             currentVehicleLicense = None\<rparr>"
  have wf: "spots_wf ?R" by code_simp
  have fc: "first_choice exactRuntime ?R MOTORCYCLE = Some ?C2" by code_simp
  have gen: "\<forall>c \<in> candidates ?R MOTORCYCLE. generated_id (id_spot c)" by code_simp
  then have sub: "candidates ?R MOTORCYCLE \<subseteq> {c. generated_id (id_spot c)}" by blast
  have ids: "map id_spot (getAllSpots ?R) =
       [''M1'', ''C2'', ''C3'', ''L4'', ''M5'', ''C6'', ''C7'', ''L8'']" by code_simp
  have m1: "?M1 \<in> candidates ?R MOTORCYCLE" by code_simp
  have ne: "?M1 \<noteq> ?C2" by simp
  note th = allocateSpot_first_fit[OF wf exactRuntime_consistent, where vt = MOTORCYCLE
      and lic = "''MC-001''", THEN conjunct2, THEN conjunct2, THEN conjunct1, rule_format, OF fc]
  from th have res: "allocateSpot exactRuntime MOTORCYCLE ''MC-001'' ?R =
      (Inr (Some (?C2\<lparr>isAvailable := False, currentVehicleLicense := Some ''MC-001''\<rparr>)),
       ?R\<lparr>spots := AList.update (id_spot ?C2)
          (?C2\<lparr>isAvailable := False, currentVehicleLicense := Some ''MC-001''\<rparr>) (spots ?R)\<rparr>)"
    by (elim conjE)
  then have r: "fst (allocateSpot exactRuntime MOTORCYCLE ''MC-001'' ?R) =
       Inr (Some \<lparr>id_spot = ''C2'', floor_spot = 1, spotType = COMPACT, isAvailable = False,
                  currentVehicleLicense = Some ''MC-001''\<rparr>)"
    by simp
  from th have "(\<forall>c \<in> candidates ?R MOTORCYCLE. generated_id (id_spot c))
               \<and> lexicographic_on_generated exactRuntime \<longrightarrow>
             (\<forall>c \<in> candidates ?R MOTORCYCLE. c \<noteq> ?C2 \<longrightarrow> spot_before ?C2 c)"
    by (elim conjE)
  with gen exactRuntime_lexicographic
  have "\<forall>c \<in> candidates ?R MOTORCYCLE. c \<noteq> ?C2 \<longrightarrow> spot_before ?C2 c" by (elim impE) (rule conjI)
  from this[rule_format, OF m1 ne] have b: "spot_before ?C2 ?M1" .
  from wf exactRuntime_consistent ids fc r sub exactRuntime_lexicographic m1 b
  show ?thesis by (intro conjI)
qed

text \<open>
  With the collation of \<open>localeCompare\<close> the order of the identifiers is not the
  lexicographic one where they differ in case: on the store with the compact spots \<open>B1\<close>
  and \<open>a1\<close> on floor 1 the allocation for a car selects \<open>a1\<close>, while \<open>B1\<close> is before \<open>a1\<close>
  in the lexicographic order.
\<close>

theorem allocateSpot_not_lexicographic:
  "getAllSpots mixedCaseStore =
     [\<lparr>id_spot = ''B1'', floor_spot = 1, spotType = COMPACT, isAvailable = True,
       currentVehicleLicense = None\<rparr>,
      \<lparr>id_spot = ''a1'', floor_spot = 1, spotType = COMPACT, isAvailable = True,
       currentVehicleLicense = None\<rparr>]
   \<and> \<lparr>id_spot = ''B1'', floor_spot = 1, spotType = COMPACT, isAvailable = True,
       currentVehicleLicense = None\<rparr> \<in> candidates mixedCaseStore CAR
   \<and> spot_before
       \<lparr>id_spot = ''B1'', floor_spot = 1, spotType = COMPACT, isAvailable = True,
         currentVehicleLicense = None\<rparr>
       \<lparr>id_spot = ''a1'', floor_spot = 1, spotType = COMPACT, isAvailable = True,
         currentVehicleLicense = None\<rparr>
   \<and> localeCompare caselessRuntime ''a1'' ''B1'' < 0
   \<and> fst (allocateSpot caselessRuntime CAR ''CAR-001'' mixedCaseStore) =
       Inr (Some \<lparr>id_spot = ''a1'', floor_spot = 1, spotType = COMPACT, isAvailable = False,
                  currentVehicleLicense = Some ''CAR-001''\<rparr>)"
  by code_simp

section \<open>Release\<close>

lemma releaseSpot_None:
  "getSpot repo k = None \<Longrightarrow> releaseSpot k repo = (Inl (SpotNotFound k), repo)"
  by (simp add: releaseSpot_def)

lemma releaseSpot_Some:
  "getSpot repo k = Some sp \<Longrightarrow>
     releaseSpot k repo = (Inr (), repo\<lparr>spots := AList.update k (release sp) (spots repo)\<rparr>)"
  by (simp add: releaseSpot_def)

text \<open>
  Claim C7. \<open>releaseSpot\<close> fails if and only if no spot is stored under the identifier; the
  error is the not-found error and the repository is unchanged. When a spot is stored under
  the identifier, available or not, \<open>releaseSpot\<close> succeeds; afterwards this spot is
  available with no occupant, every other spot, the order of the spots, the tickets and the
  index of active tickets are unchanged.
\<close>

theorem releaseSpot_effect:
  "((\<exists>e. fst (releaseSpot k repo) = Inl e) \<longleftrightarrow> getSpot repo k = None)
   \<and> (getSpot repo k = None \<longrightarrow> releaseSpot k repo = (Inl (SpotNotFound k), repo))
   \<and> (\<forall>sp. getSpot repo k = Some sp \<longrightarrow>
         fst (releaseSpot k repo) = Inr ()
         \<and> getSpot (snd (releaseSpot k repo)) k =
             Some (sp\<lparr>isAvailable := True, currentVehicleLicense := None\<rparr>)
         \<and> (\<forall>k'. k' \<noteq> k \<longrightarrow> getSpot (snd (releaseSpot k repo)) k' = getSpot repo k')
         \<and> map fst (spots (snd (releaseSpot k repo))) = map fst (spots repo)
         \<and> tickets (snd (releaseSpot k repo)) = tickets repo
         \<and> activeTicketsByVehicle (snd (releaseSpot k repo)) = activeTicketsByVehicle repo)"
proof (cases "getSpot repo k")
  case None
  then show ?thesis by (simp add: releaseSpot_None)
next
  case (Some sp)
  then have "k \<in> set (map fst (spots repo))"
    by (auto simp: getSpot_def dest: map_of_SomeD intro: rev_image_eqI)
  with Some show ?thesis
    by (simp add: releaseSpot_Some getSpot_def update_conv' update_keys release_def)
qed

theorem releaseSpot_effect_witness:
  "getSpot (repository exampleLot) ''M9'' = None
   \<and> releaseSpot ''M9'' (repository exampleLot) = (Inl (SpotNotFound ''M9''), repository exampleLot)
   \<and> getSpot (repository exampleLot) ''L4'' =
       Some \<lparr>id_spot = ''L4'', floor_spot = 1, spotType = LARGE, isAvailable = True,
             currentVehicleLicense = None\<rparr>
   \<and> getSpot (snd (releaseSpot ''L4'' (repository exampleLot))) ''L4'' =
       Some \<lparr>id_spot = ''L4'', floor_spot = 1, spotType = LARGE, isAvailable = True,
             currentVehicleLicense = None\<rparr>"
proof -
  let ?R = "repository exampleLot"
  have n: "getSpot ?R ''M9'' = None" by code_simp
  have s: "getSpot ?R ''L4'' =
       Some \<lparr>id_spot = ''L4'', floor_spot = 1, spotType = LARGE, isAvailable = True,
             currentVehicleLicense = None\<rparr>" by code_simp
  from releaseSpot_effect[of "''M9''" ?R] n
  have a: "releaseSpot ''M9'' ?R = (Inl (SpotNotFound ''M9''), ?R)" by (elim conjE impE)
  from releaseSpot_effect[of "''L4''" ?R, THEN conjunct2, THEN conjunct2, rule_format, OF s]
  have b: "getSpot (snd (releaseSpot ''L4'' ?R)) ''L4'' =
       Some \<lparr>id_spot = ''L4'', floor_spot = 1, spotType = LARGE, isAvailable = True,
             currentVehicleLicense = None\<rparr>" by simp
  from n a s b show ?thesis by (intro conjI)
qed

section \<open>Check-in and check-out: the failing and the empty results\<close>

lemma checkInVehicle_parked:
  "getActiveTicketByVehicle (repository svc) (licensePlate v) = Some t \<Longrightarrow>
     checkInVehicle env v now svc = (Inl (AlreadyParked (licensePlate v) (spot t)), svc)"
  by (simp add: checkInVehicle_def)

lemma checkInVehicle_full:
  assumes "getActiveTicketByVehicle (repository svc) (licensePlate v) = None"
    and "candidates (repository svc) (type_vehicle v) = {}"
  shows "checkInVehicle env v now svc = (Inr None, svc)"
  using assms by (simp add: checkInVehicle_def allocateSpot_None)

lemma checkInVehicle_success:
  assumes "getActiveTicketByVehicle (repository svc) (licensePlate v) = None"
    and "candidates (repository svc) (type_vehicle v) \<noteq> {}"
  shows "\<exists>sel \<in> candidates (repository svc) (type_vehicle v).
      isAvailable sel
      \<and> checkInVehicle env v now svc =
          (Inr (Some (ParkingTicket_new (ticketIdOf (ticketCounter svc)) v sel now)),
           svc\<lparr>repository :=
                  addTicket (ParkingTicket_new (ticketIdOf (ticketCounter svc)) v sel now)
                    ((repository svc)\<lparr>spots := AList.update (id_spot sel)
                       (sel\<lparr>isAvailable := False, currentVehicleLicense := Some (licensePlate v)\<rparr>)
                       (spots (repository svc))\<rparr>),
                ticketCounter := ticketCounter svc + 1\<rparr>)"
proof -
  from allocateSpot_Some[OF assms(2), where env = env and lic = "licensePlate v"] obtain sel where
    sel: "sel \<in> candidates (repository svc) (type_vehicle v)"
    and res: "allocateSpot env (type_vehicle v) (licensePlate v) (repository svc) =
        (Inr (Some (sel\<lparr>isAvailable := False, currentVehicleLicense := Some (licensePlate v)\<rparr>)),
         (repository svc)\<lparr>spots := AList.update (id_spot sel)
            (sel\<lparr>isAvailable := False, currentVehicleLicense := Some (licensePlate v)\<rparr>)
            (spots (repository svc))\<rparr>)"
    by blast
  have "checkInVehicle env v now svc =
          (Inr (Some (ParkingTicket_new (ticketIdOf (ticketCounter svc)) v sel now)),
           svc\<lparr>repository :=
                  addTicket (ParkingTicket_new (ticketIdOf (ticketCounter svc)) v sel now)
                    ((repository svc)\<lparr>spots := AList.update (id_spot sel)
                       (sel\<lparr>isAvailable := False, currentVehicleLicense := Some (licensePlate v)\<rparr>)
                       (spots (repository svc))\<rparr>),
                ticketCounter := ticketCounter svc + 1\<rparr>)"
    using assms(1) res
    by (simp add: checkInVehicle_def generateTicketId_def ParkingTicket_new_def Let_def)
  moreover from sel have "isAvailable sel" by (simp add: candidates_def)
  ultimately show ?thesis using sel by blast
qed

lemma checkInVehicle_cases:
  obtains (parked) t where
      "getActiveTicketByVehicle (repository svc) (licensePlate v) = Some t"
      "checkInVehicle env v now svc = (Inl (AlreadyParked (licensePlate v) (spot t)), svc)"
  | (full)
      "getActiveTicketByVehicle (repository svc) (licensePlate v) = None"
      "candidates (repository svc) (type_vehicle v) = {}"
      "checkInVehicle env v now svc = (Inr None, svc)"
  | (success) sel where
      "getActiveTicketByVehicle (repository svc) (licensePlate v) = None"
      "sel \<in> candidates (repository svc) (type_vehicle v)"
      "isAvailable sel"
      "checkInVehicle env v now svc =
          (Inr (Some (ParkingTicket_new (ticketIdOf (ticketCounter svc)) v sel now)),
           svc\<lparr>repository :=
                  addTicket (ParkingTicket_new (ticketIdOf (ticketCounter svc)) v sel now)
                    ((repository svc)\<lparr>spots := AList.update (id_spot sel)
                       (sel\<lparr>isAvailable := False, currentVehicleLicense := Some (licensePlate v)\<rparr>)
                       (spots (repository svc))\<rparr>),
                ticketCounter := ticketCounter svc + 1\<rparr>)"
proof (cases "getActiveTicketByVehicle (repository svc) (licensePlate v)")
  case (Some t)
  then show ?thesis using parked checkInVehicle_parked by blast
next
  case None
  show ?thesis
  proof (cases "candidates (repository svc) (type_vehicle v) = {}")
    case True
    with None show ?thesis using full checkInVehicle_full by blast
  next
    case False
    from checkInVehicle_success[OF None False, where env = env and now = now] show ?thesis
      using success None by blast
  qed
qed

lemma getActiveTicketByVehicle_addTicket:
  assumes "isActive t"
  shows "getActiveTicketByVehicle (addTicket t repo) (licensePlate (vehicle t)) = Some t"
  using assms by (simp add: getActiveTicketByVehicle_def addTicket_def Let_def update_conv')

lemma checkOutVehicle_none:
  "getActiveTicketByVehicle (repository svc) plate = None \<Longrightarrow>
     checkOutVehicle env plate exit now svc = (Inl (NoActiveSession plate), svc)"
  by (simp add: checkOutVehicle_def)

lemma checkOutVehicle_not_none:
  assumes "getActiveTicketByVehicle (repository svc) plate = Some t"
  shows "fst (checkOutVehicle env plate exit now svc) \<noteq> Inl (NoActiveSession q)"
  using assms
  by (auto simp: checkOutVehicle_def Let_def complete_def calculateFee_def releaseSpot_def
      split: option.splits sum.splits prod.splits if_splits)

text \<open>
  Claim C6. A check-in fails with the already-parked error exactly when the repository has
  an active ticket for the licence plate, and a check-out fails with the no-active-session
  error exactly when it has none; in both cases the whole service state (spots, tickets,
  index of active tickets, ticket counter) is the state before the call. After a successful
  check-in of a vehicle, another check-in of the same vehicle fails with the already-parked
  error and changes nothing.
\<close>

theorem conflict_no_side_effect:
  "(fst (checkInVehicle env v now svc) = Inl (AlreadyParked p k) \<longrightarrow>
      snd (checkInVehicle env v now svc) = svc)
   \<and> ((\<exists>p k. fst (checkInVehicle env v now svc) = Inl (AlreadyParked p k)) \<longleftrightarrow>
        getActiveTicketByVehicle (repository svc) (licensePlate v) \<noteq> None)
   \<and> (fst (checkOutVehicle env plate exit now svc) = Inl (NoActiveSession q) \<longrightarrow>
        snd (checkOutVehicle env plate exit now svc) = svc)
   \<and> ((\<exists>q. fst (checkOutVehicle env plate exit now svc) = Inl (NoActiveSession q)) \<longleftrightarrow>
        getActiveTicketByVehicle (repository svc) plate = None)
   \<and> (\<forall>S svc1 now'. checkInVehicle env v now svc = (Inr (Some S), svc1) \<longrightarrow>
        checkInVehicle env v now' svc1 = (Inl (AlreadyParked (licensePlate v) (spot S)), svc1))"
proof (intro conjI allI impI)
  show "snd (checkInVehicle env v now svc) = svc"
    if "fst (checkInVehicle env v now svc) = Inl (AlreadyParked p k)"
    using that by (cases rule: checkInVehicle_cases[where env = env and svc = svc and v = v and now = now]) auto
  show "(\<exists>p k. fst (checkInVehicle env v now svc) = Inl (AlreadyParked p k)) \<longleftrightarrow>
        getActiveTicketByVehicle (repository svc) (licensePlate v) \<noteq> None"
    by (cases rule: checkInVehicle_cases[where env = env and svc = svc and v = v and now = now]) auto
  show "snd (checkOutVehicle env plate exit now svc) = svc"
    if "fst (checkOutVehicle env plate exit now svc) = Inl (NoActiveSession q)"
  proof (cases "getActiveTicketByVehicle (repository svc) plate")
    case None
    then show ?thesis by (simp add: checkOutVehicle_none)
  next
    case (Some t)
    from checkOutVehicle_not_none[OF this] that show ?thesis by blast
  qed
  show "(\<exists>q. fst (checkOutVehicle env plate exit now svc) = Inl (NoActiveSession q)) \<longleftrightarrow>
        getActiveTicketByVehicle (repository svc) plate = None"
  proof (cases "getActiveTicketByVehicle (repository svc) plate")
    case None
    then show ?thesis by (simp add: checkOutVehicle_none)
  next
    case (Some t)
    from checkOutVehicle_not_none[OF this] Some show ?thesis by simp
  qed
  show "checkInVehicle env v now' svc1 = (Inl (AlreadyParked (licensePlate v) (spot S)), svc1)"
    if "checkInVehicle env v now svc = (Inr (Some S), svc1)" for S svc1 now'
  proof (cases rule: checkInVehicle_cases[where env = env and svc = svc and v = v and now = now])
    case (parked t)
    with that show ?thesis by simp
  next
    case full
    with that show ?thesis by simp
  next
    case (success sel)
    let ?S = "ParkingTicket_new (ticketIdOf (ticketCounter svc)) v sel now"
    from success(4) that have S: "S = ?S"
      and svc1: "repository svc1 = addTicket ?S
                    ((repository svc)\<lparr>spots := AList.update (id_spot sel)
                       (sel\<lparr>isAvailable := False, currentVehicleLicense := Some (licensePlate v)\<rparr>)
                       (spots (repository svc))\<rparr>)"
      by auto
    have "isActive ?S" "licensePlate (vehicle ?S) = licensePlate v"
      by (simp_all add: ParkingTicket_new_def isActive_def)
    with getActiveTicketByVehicle_addTicket[of ?S] svc1 S
    have "getActiveTicketByVehicle (repository svc1) (licensePlate v) = Some S"
      by simp
    then show ?thesis by (rule checkInVehicle_parked)
  qed
qed

theorem conflict_no_side_effect_witness:
  "fst (checkInVehicle exactRuntime car1 5 (snd (checkInVehicle exactRuntime car1 0 exampleLot))) =
     Inl (AlreadyParked ''CAR-001'' ''C2'')
   \<and> snd (checkInVehicle exactRuntime car1 5 (snd (checkInVehicle exactRuntime car1 0 exampleLot))) =
       snd (checkInVehicle exactRuntime car1 0 exampleLot)
   \<and> fst (checkOutVehicle exactRuntime ''CAR-001'' 7 8 exampleLot) = Inl (NoActiveSession ''CAR-001'')
   \<and> snd (checkOutVehicle exactRuntime ''CAR-001'' 7 8 exampleLot) = exampleLot"
proof -
  let ?s1 = "snd (checkInVehicle exactRuntime car1 0 exampleLot)"
  have a: "fst (checkInVehicle exactRuntime car1 5 ?s1) = Inl (AlreadyParked ''CAR-001'' ''C2'')"
    by code_simp
  have b: "fst (checkOutVehicle exactRuntime ''CAR-001'' 7 8 exampleLot) = Inl (NoActiveSession ''CAR-001'')"
    by code_simp
  from conflict_no_side_effect[where env = exactRuntime and v = car1 and now = 5 and svc = ?s1 and p = "''CAR-001''"
        and k = "''C2''", THEN conjunct1, rule_format, OF a]
  have a': "snd (checkInVehicle exactRuntime car1 5 ?s1) = ?s1" .
  from conflict_no_side_effect[where env = exactRuntime and plate = "''CAR-001''" and exit = 7 and now = 8
        and svc = exampleLot and q = "''CAR-001''",
      THEN conjunct2, THEN conjunct2, THEN conjunct1, rule_format, OF b]
  have b': "snd (checkOutVehicle exactRuntime ''CAR-001'' 7 8 exampleLot) = exampleLot" .
  from a a' b b' show ?thesis by (intro conjI)
qed

text \<open>
  Claim C10. When a check-in returns \<open>null\<close>, the service state after the call is the state
  before it: no spot, no ticket, no index entry and not the ticket counter has changed, so
  every later check-in behaves as if the failed one had not happened. The result is \<open>null\<close>
  exactly when the vehicle has no active ticket and no available spot fits it.
\<close>

theorem checkIn_null_no_side_effect:
  "(fst (checkInVehicle env v now svc) = Inr None \<longrightarrow>
      snd (checkInVehicle env v now svc) = svc
      \<and> (\<forall>w t. checkInVehicle env w t (snd (checkInVehicle env v now svc)) = checkInVehicle env w t svc))
   \<and> (fst (checkInVehicle env v now svc) = Inr None \<longleftrightarrow>
        getActiveTicketByVehicle (repository svc) (licensePlate v) = None
        \<and> candidates (repository svc) (type_vehicle v) = {})"
  by (cases rule: checkInVehicle_cases[where env = env and svc = svc and v = v and now = now]) auto

theorem checkIn_null_no_side_effect_witness:
  "fst (checkInVehicle exactRuntime motorcycle2 7 (snd (checkInVehicle exactRuntime motorcycle1 0 singleSpotLot))) = Inr None
   \<and> snd (checkInVehicle exactRuntime motorcycle2 7 (snd (checkInVehicle exactRuntime motorcycle1 0 singleSpotLot))) =
       snd (checkInVehicle exactRuntime motorcycle1 0 singleSpotLot)
   \<and> ticketCounter (snd (checkInVehicle exactRuntime motorcycle2 7 (snd (checkInVehicle exactRuntime motorcycle1 0 singleSpotLot)))) = 2"
proof -
  let ?s1 = "snd (checkInVehicle exactRuntime motorcycle1 0 singleSpotLot)"
  have a: "fst (checkInVehicle exactRuntime motorcycle2 7 ?s1) = Inr None" by code_simp
  have c: "ticketCounter ?s1 = 2" by code_simp
  from checkIn_null_no_side_effect[where env = exactRuntime and v = motorcycle2 and now = 7
        and svc = ?s1, THEN conjunct1, rule_format, OF a]
  have b: "snd (checkInVehicle exactRuntime motorcycle2 7 ?s1) = ?s1" by (rule conjunct1)
  from a b c show ?thesis by simp
qed

section \<open>The steps of check-out\<close>

lemma completeTicket_after_update:
  "completeTicket (ticketId t) (repo\<lparr>tickets := AList.update (ticketId t) t' (tickets repo)\<rparr>) =
     repo\<lparr>tickets := AList.update (ticketId t) t' (tickets repo),
          activeTicketsByVehicle :=
            AList.delete (licensePlate (vehicle t')) (activeTicketsByVehicle repo)\<rparr>"
  by (simp add: completeTicket_def update_conv')

lemma checkOutVehicle_cases:
  obtains (none)
      "getActiveTicketByVehicle (repository svc) plate = None"
      "checkOutVehicle env plate exit now svc = (Inl (NoActiveSession plate), svc)"
  | (norate) t e where
      "getActiveTicketByVehicle (repository svc) plate = Some t"
      "calculateFee env (feeCalculator svc) (type_vehicle (vehicle t)) (getDuration env t now) = Inl e"
      "checkOutVehicle env plate exit now svc = (Inl e, svc)"
  | (completed) t where
      "getActiveTicketByVehicle (repository svc) plate = Some t"
      "\<not> isActive t"
      "checkOutVehicle env plate exit now svc = (Inl (AlreadyCompleted (ticketId t)), svc)"
  | (nospot) t f where
      "getActiveTicketByVehicle (repository svc) plate = Some t"
      "calculateFee env (feeCalculator svc) (type_vehicle (vehicle t)) (getDuration env t now) = Inr f"
      "isActive t"
      "getSpot (repository svc) (spot t) = None"
      "checkOutVehicle env plate exit now svc =
         (Inl (SpotNotFound (spot t)),
          svc\<lparr>repository := (repository svc)
             \<lparr>tickets := AList.update (ticketId t) (t\<lparr>exitTime := Some exit, fee := Some f\<rparr>)
                           (tickets (repository svc)),
              activeTicketsByVehicle :=
                AList.delete (licensePlate (vehicle t)) (activeTicketsByVehicle (repository svc))\<rparr>\<rparr>)"
  | (ok) t f sp where
      "getActiveTicketByVehicle (repository svc) plate = Some t"
      "calculateFee env (feeCalculator svc) (type_vehicle (vehicle t)) (getDuration env t now) = Inr f"
      "isActive t"
      "getSpot (repository svc) (spot t) = Some sp"
      "checkOutVehicle env plate exit now svc =
         (Inr (t\<lparr>exitTime := Some exit, fee := Some f\<rparr>),
          svc\<lparr>repository := (repository svc)
             \<lparr>tickets := AList.update (ticketId t) (t\<lparr>exitTime := Some exit, fee := Some f\<rparr>)
                           (tickets (repository svc)),
              activeTicketsByVehicle :=
                AList.delete (licensePlate (vehicle t)) (activeTicketsByVehicle (repository svc)),
              spots := AList.update (spot t) (release sp) (spots (repository svc))\<rparr>\<rparr>)"
proof (cases "getActiveTicketByVehicle (repository svc) plate")
  case None
  then show ?thesis using none by (simp add: checkOutVehicle_none)
next
  case (Some t)
  show ?thesis
  proof (cases "calculateFee env (feeCalculator svc) (type_vehicle (vehicle t)) (getDuration env t now)")
    case (Inl e)
    with Some have "checkOutVehicle env plate exit now svc = (Inl e, svc)"
      by (simp add: checkOutVehicle_def Let_def)
    with Some Inl show ?thesis using norate by blast
  next
    case (Inr f)
    show ?thesis
    proof (cases "isActive t")
      case False
      with Some Inr
      have "checkOutVehicle env plate exit now svc = (Inl (AlreadyCompleted (ticketId t)), svc)"
        by (simp add: checkOutVehicle_def Let_def complete_def)
      with Some False show ?thesis using completed by blast
    next
      case True
      let ?t' = "t\<lparr>exitTime := Some exit, fee := Some f\<rparr>"
      have ct: "completeTicket (ticketId ?t')
          ((repository svc)\<lparr>tickets := AList.update (ticketId ?t') ?t' (tickets (repository svc))\<rparr>) =
        (repository svc)\<lparr>tickets := AList.update (ticketId t) ?t' (tickets (repository svc)),
          activeTicketsByVehicle :=
            AList.delete (licensePlate (vehicle t)) (activeTicketsByVehicle (repository svc))\<rparr>"
        using completeTicket_after_update[where t = t and repo = "repository svc" and t' = ?t'] by simp
      show ?thesis
      proof (cases "getSpot (repository svc) (spot t)")
        case None
        with Some Inr True ct
        have "checkOutVehicle env plate exit now svc =
         (Inl (SpotNotFound (spot t)),
          svc\<lparr>repository := (repository svc)
             \<lparr>tickets := AList.update (ticketId t) ?t' (tickets (repository svc)),
              activeTicketsByVehicle :=
                AList.delete (licensePlate (vehicle t)) (activeTicketsByVehicle (repository svc))\<rparr>\<rparr>)"
          by (simp add: checkOutVehicle_def Let_def complete_def releaseSpot_def getSpot_def)
        with Some Inr True None show ?thesis using nospot by blast
      next
        case (Some sp)
        with \<open>getActiveTicketByVehicle (repository svc) plate = Some t\<close> Inr True ct
        have "checkOutVehicle env plate exit now svc =
         (Inr ?t',
          svc\<lparr>repository := (repository svc)
             \<lparr>tickets := AList.update (ticketId t) ?t' (tickets (repository svc)),
              activeTicketsByVehicle :=
                AList.delete (licensePlate (vehicle t)) (activeTicketsByVehicle (repository svc)),
              spots := AList.update (spot t) (release sp) (spots (repository svc))\<rparr>\<rparr>)"
          by (simp add: checkOutVehicle_def Let_def complete_def releaseSpot_def getSpot_def)
        with \<open>getActiveTicketByVehicle (repository svc) plate = Some t\<close> Inr True Some
        show ?thesis using ok by blast
      qed
    qed
  qed
qed

section \<open>The initialized lot\<close>

lemma addSpots_tickets:
  "tickets (snd (addSpots letter t fl n st)) = tickets (snd st)
   \<and> activeTicketsByVehicle (snd (addSpots letter t fl n st)) = activeTicketsByVehicle (snd st)"
  by (induction letter t fl n st rule: addSpots.induct) (simp_all add: addSpot_def)

lemma addFloor_tickets:
  "tickets (snd (addFloor spf fl st)) = tickets (snd st)
   \<and> activeTicketsByVehicle (snd (addFloor spf fl st)) = activeTicketsByVehicle (snd st)"
  by (simp add: addFloor_def addSpots_tickets)

lemma floorLoop_tickets:
  "tickets (snd (floorLoop fl floors spf st)) = tickets (snd st)
   \<and> activeTicketsByVehicle (snd (floorLoop fl floors spf st)) = activeTicketsByVehicle (snd st)"
proof (induction fl floors spf st rule: floorLoop.induct)
  case (1 fl floors spf st)
  show ?case
  proof (cases "fl \<le> floors")
    case True
    with 1 show ?thesis by (simp add: floorLoop.simps[of fl] addFloor_tickets)
  next
    case False
    then show ?thesis by (simp add: floorLoop.simps[of fl])
  qed
qed

lemma initialLot_tickets:
  "tickets (repository (initialLot fc floors spf)) = []"
  "activeTicketsByVehicle (repository (initialLot fc floors spf)) = []"
  "ticketCounter (initialLot fc floors spf) = 1"
  "feeCalculator (initialLot fc floors spf) = fc"
  by (simp_all add: initialLot_def initializeParkingLot_def floorLoop_tickets
      ParkingLotService_new_def ParkingLotRepository_new_def)

section \<open>The life cycle of a ticket\<close>

lemma set_update_values:
  "set (map snd (AList.update k v al)) \<subseteq> insert v (set (map snd al))"
  by (induction al) auto

lemma apply_op_tickets_ok:
  assumes "\<forall>t \<in> set (getAllTickets (repository svc)). ticket_state_ok t"
  shows "\<forall>t \<in> set (getAllTickets (repository (apply_op env op svc))). ticket_state_ok t"
proof (cases op)
  case (CheckIn v now)
  show ?thesis
  proof (cases rule: checkInVehicle_cases[where env = env and svc = svc and v = v and now = now])
    case (parked t)
    with assms CheckIn show ?thesis by simp
  next
    case full
    with assms CheckIn show ?thesis by simp
  next
    case (success sel)
    let ?S = "ParkingTicket_new (ticketIdOf (ticketCounter svc)) v sel now"
    have "ticket_state_ok ?S" by (simp add: ticket_state_ok_def ParkingTicket_new_def)
    moreover have "set (getAllTickets (repository (apply_op env op svc))) \<subseteq>
        insert ?S (set (getAllTickets (repository svc)))"
      using success(4) CheckIn set_update_values[of "ticketId ?S" ?S "tickets (repository svc)"]
      by (simp add: getAllTickets_def addTicket_def Let_def)
    ultimately show ?thesis using assms by blast
  qed
next
  case (CheckOut plate exit now)
  show ?thesis
  proof (cases rule: checkOutVehicle_cases[where env = env and svc = svc and plate = plate and exit = exit and now = now])
    case none
    with assms CheckOut show ?thesis by simp
  next
    case (norate t e)
    with assms CheckOut show ?thesis by simp
  next
    case (completed t)
    with assms CheckOut show ?thesis by simp
  next
    case (nospot t f)
    let ?t' = "t\<lparr>exitTime := Some exit, fee := Some f\<rparr>"
    have "ticket_state_ok ?t'" by (simp add: ticket_state_ok_def)
    moreover have "set (getAllTickets (repository (apply_op env op svc))) \<subseteq>
        insert ?t' (set (getAllTickets (repository svc)))"
      using nospot(5) CheckOut set_update_values[of "ticketId t" ?t' "tickets (repository svc)"]
      by (simp add: getAllTickets_def)
    ultimately show ?thesis using assms by blast
  next
    case (ok t f sp)
    let ?t' = "t\<lparr>exitTime := Some exit, fee := Some f\<rparr>"
    have "ticket_state_ok ?t'" by (simp add: ticket_state_ok_def)
    moreover have "set (getAllTickets (repository (apply_op env op svc))) \<subseteq>
        insert ?t' (set (getAllTickets (repository svc)))"
      using ok(5) CheckOut set_update_values[of "ticketId t" ?t' "tickets (repository svc)"]
      by (simp add: getAllTickets_def)
    ultimately show ?thesis using assms by blast
  qed
next
  case (Allocate vt lic)
  have "tickets (snd (allocateSpot env vt lic (repository svc))) = tickets (repository svc)"
    by (cases "candidates (repository svc) vt = {}")
      (use allocateSpot_None[where env = env and repo = "repository svc" and vt = vt and lic = lic] allocateSpot_Some[where env = env and repo = "repository svc" and vt = vt and lic = lic]
        in auto)
  with assms Allocate show ?thesis by (simp add: getAllTickets_def)
next
  case (Release k)
  have "tickets (snd (releaseSpot k (repository svc))) = tickets (repository svc)"
    by (cases "getSpot (repository svc) k") (simp_all add: releaseSpot_None releaseSpot_Some)
  with assms Release show ?thesis by (simp add: getAllTickets_def)
qed

lemma run_tickets_ok:
  "\<forall>t \<in> set (getAllTickets (repository svc)). ticket_state_ok t \<Longrightarrow>
   \<forall>t \<in> set (getAllTickets (repository (run env ops svc))). ticket_state_ok t"
proof (induction ops arbitrary: svc)
  case Nil
  then show ?case by simp
next
  case (Cons op ops)
  from Cons.prems have "\<forall>t \<in> set (getAllTickets (repository (apply_op env op svc))). ticket_state_ok t"
    by (rule apply_op_tickets_ok)
  then show ?case using Cons.IH by simp
qed

text \<open>
  Claim C8. In every state that a run of check-ins, check-outs, allocations and releases
  reaches from an initialized lot, each ticket of the repository is active, with neither exit
  time nor fee, or completed, with both. \<open>complete\<close> moves an active ticket to the completed
  state; on a ticket that is completed already it fails with an error and leaves the ticket
  as it is, exit time and fee included.
\<close>

theorem ticket_lifecycle:
  "(\<forall>t \<in> set (getAllTickets (repository (run env ops (initialLot fc floors spf)))).
       ticket_state_ok t \<and> (isActive t \<longleftrightarrow> exitTime t = None \<and> fee t = None))
   \<and> (isActive t \<longrightarrow>
        complete exit f t = (Inr (), t\<lparr>exitTime := Some exit, fee := Some f\<rparr>)
        \<and> \<not> isActive (snd (complete exit f t)))
   \<and> (\<not> isActive t \<longrightarrow>
        (\<exists>e. fst (complete exit f t) = Inl e)
        \<and> snd (complete exit f t) = t
        \<and> exitTime (snd (complete exit f t)) = exitTime t
        \<and> fee (snd (complete exit f t)) = fee t)"
proof -
  have "\<forall>t \<in> set (getAllTickets (repository (initialLot fc floors spf))). ticket_state_ok t"
    by (simp add: getAllTickets_def initialLot_tickets)
  then have "\<forall>t \<in> set (getAllTickets (repository (run env ops (initialLot fc floors spf)))).
      ticket_state_ok t"
    by (rule run_tickets_ok)
  then show ?thesis
    by (auto simp: complete_def isActive_def ticket_state_ok_def)
qed

theorem ticket_lifecycle_witness:
  "getAllTickets (repository (run exactRuntime [CheckIn car1 0, CheckIn motorcycle1 5,
       CheckOut ''CAR-001'' 9000000 9000001] exampleLot)) =
     [\<lparr>ticketId = ''T000001'', vehicle = car1, spot = ''C2'', entryTime = 0,
       exitTime = Some 9000000, fee = Some 10\<rparr>,
      \<lparr>ticketId = ''T000002'', vehicle = motorcycle1, spot = ''C3'', entryTime = 5,
       exitTime = None, fee = None\<rparr>]
   \<and> ticket_state_ok \<lparr>ticketId = ''T000001'', vehicle = car1, spot = ''C2'', entryTime = 0,
       exitTime = Some 9000000, fee = Some 10\<rparr>
   \<and> snd (complete 1 1 \<lparr>ticketId = ''T000001'', vehicle = car1, spot = ''C2'', entryTime = 0,
       exitTime = Some 9000000, fee = Some 10\<rparr>) =
       \<lparr>ticketId = ''T000001'', vehicle = car1, spot = ''C2'', entryTime = 0,
       exitTime = Some 9000000, fee = Some 10\<rparr>"
proof -
  let ?ops = "[CheckIn car1 0, CheckIn motorcycle1 5, CheckOut ''CAR-001'' 9000000 9000001]"
  let ?T1 = "\<lparr>ticketId = ''T000001'', vehicle = car1, spot = ''C2'', entryTime = 0,
       exitTime = Some 9000000, fee = Some (10::real)\<rparr>"
  let ?T2 = "\<lparr>ticketId = ''T000002'', vehicle = motorcycle1, spot = ''C3'', entryTime = 5,
       exitTime = None, fee = None :: real option\<rparr>"
  have ev: "getAllTickets (repository (run exactRuntime ?ops exampleLot)) = [?T1, ?T2]"
    by code_simp
  note th = ticket_lifecycle[where env = exactRuntime and ops = ?ops and fc = "FeeCalculator_new None" and floors = 2
      and spf = exampleSpotsPerFloor and t = ?T1 and exit = 1 and f = 1, folded exampleLot_def]
  from th[THEN conjunct1] ev have a: "ticket_state_ok ?T1" by simp
  have na: "\<not> isActive ?T1" by (simp add: isActive_def)
  from th[THEN conjunct2, THEN conjunct2, rule_format, OF na]
  have b: "snd (complete 1 1 ?T1) = ?T1" by (elim conjE)
  from ev a b show ?thesis by (intro conjI)
qed

section \<open>Decimal notation\<close>

lemma digit_val_digit_char: "d < 10 \<Longrightarrow> digit_val (digit_char d) = d"
  by (simp add: digit_val_def digit_char_def)

lemma decode_nat_snoc: "decode_nat (s @ [c]) = 10 * decode_nat s + digit_val c"
  by (simp add: decode_nat_def)

lemma decode_String_nat: "decode_nat (String_nat n) = n"
proof (induction n rule: String_nat.induct)
  case (1 n)
  show ?case
  proof (cases "n < 10")
    case True
    then show ?thesis
      by (simp add: String_nat.simps[of n] decode_nat_def digit_val_digit_char)
  next
    case False
    with 1 show ?thesis
      by (simp add: String_nat.simps[of n] decode_nat_snoc digit_val_digit_char)
  qed
qed

lemma String_nat_inj: "String_nat a = String_nat b \<Longrightarrow> a = b"
  by (metis decode_String_nat)

lemma letterOf_String_nat_inj:
  "letterOf t @ String_nat a = letterOf t' @ String_nat b \<Longrightarrow> a = b"
  by (cases t; cases t') (auto dest: String_nat_inj)

section \<open>The loops of the initialization\<close>

lemma update_fresh_append:
  "k \<notin> fst ` set al \<Longrightarrow> AList.update k v al = al @ [(k, v)]"
  by (induction al) auto

lemma spots_wf_keys: "spots_wf repo \<Longrightarrow> map fst (spots repo) = map id_spot (getAllSpots repo)"
  by (auto simp: spots_wf_def getAllSpots_def)

lemma spots_wf_getSpot:
  assumes "spots_wf repo" "sp \<in> set (getAllSpots repo)"
  shows "getSpot repo (id_spot sp) = Some sp"
proof -
  from assms(2) obtain k where "(k, sp) \<in> set (spots repo)"
    by (auto simp: getAllSpots_def)
  moreover from this assms(1) have "k = id_spot sp" by (auto simp: spots_wf_def)
  ultimately show ?thesis using assms(1) by (simp add: spots_wf_def getSpot_def)
qed

lemma spots_numbered_fresh:
  assumes "spots_numbered c repo"
  shows "letterOf t @ String_nat c \<notin> fst ` set (spots repo)"
proof
  let ?f = "\<lambda>k t. letterOf t @ String_nat k"
  let ?ts = "map spotType (getAllSpots repo)"
  assume "letterOf t @ String_nat c \<in> fst ` set (spots repo)"
  then have "letterOf t @ String_nat c \<in> set (map fst (spots repo))" by simp
  also have "map fst (spots repo) = map id_spot (getAllSpots repo)"
    using assms by (simp add: spots_numbered_def spots_wf_keys)
  also have "\<dots> = map2 ?f [1..<c] ?ts"
    using assms by (simp only: spots_numbered_def)
  finally obtain p where p: "p \<in> set (zip [1..<c] ?ts)"
    and eq: "letterOf t @ String_nat c = (case p of (k, t') \<Rightarrow> letterOf t' @ String_nat k)"
    by (auto simp del: upt_Suc)
  obtain k t' where kt: "p = (k, t')" by (cases p)
  from p kt have "k \<in> set [1..<c]" by (auto dest: set_zip_leftD)
  then have "k < c" by simp
  moreover from eq kt have "c = k" by (auto dest: letterOf_String_nat_inj)
  ultimately show False by simp
qed

lemma addSpot_numbered:
  assumes "spots_numbered c repo"
    and new_def: "new = ParkingSpot_new (letterOf t @ String_nat c) fl t"
  shows "getAllSpots (addSpot new repo) = getAllSpots repo @ [new]"
    and "spots_numbered (Suc c) (addSpot new repo)"
proof -
  have fresh: "id_spot new \<notin> fst ` set (spots repo)"
    using spots_numbered_fresh[OF assms(1), of t] by (simp add: new_def ParkingSpot_new_def)
  then have sp: "spots (addSpot new repo) = spots repo @ [(id_spot new, new)]"
    by (simp add: addSpot_def update_fresh_append)
  then show all: "getAllSpots (addSpot new repo) = getAllSpots repo @ [new]"
    by (simp add: getAllSpots_def)
  have wf: "spots_wf (addSpot new repo)"
    using assms(1) fresh sp by (auto simp: spots_numbered_def spots_wf_def)
  have len: "length (getAllSpots repo) = c - 1" "1 \<le> c"
    using assms(1) by (auto simp: spots_numbered_def getAllSpots_def)
  have upt: "[1..<Suc c] = [1..<c] @ [c]" using len(2) by simp
  have ids: "map id_spot (getAllSpots (addSpot new repo)) =
      map2 (\<lambda>k t. letterOf t @ String_nat k) [1..<Suc c]
        (map spotType (getAllSpots (addSpot new repo)))"
    using assms(1) len unfolding all upt
    by (simp add: spots_numbered_def new_def ParkingSpot_new_def)
  have av: "\<forall>sp \<in> set (getAllSpots (addSpot new repo)).
      isAvailable sp \<and> currentVehicleLicense sp = None"
    using assms(1) unfolding all by (auto simp: spots_numbered_def new_def ParkingSpot_new_def)
  from wf sp ids av assms(1) show "spots_numbered (Suc c) (addSpot new repo)"
    by (simp add: spots_numbered_def)
qed

lemma addSpots_numbered:
  assumes "spots_numbered c repo"
  shows "fst (addSpots (letterOf t) t fl n (c, repo)) = c + n
    \<and> spots_numbered (c + n) (snd (addSpots (letterOf t) t fl n (c, repo)))
    \<and> map spotType (getAllSpots (snd (addSpots (letterOf t) t fl n (c, repo)))) =
        map spotType (getAllSpots repo) @ replicate n t
    \<and> map floor_spot (getAllSpots (snd (addSpots (letterOf t) t fl n (c, repo)))) =
        map floor_spot (getAllSpots repo) @ replicate n (int fl)"
  using assms
proof (induction n arbitrary: c repo)
  case 0
  then show ?case by simp
next
  case (Suc n)
  let ?new = "ParkingSpot_new (letterOf t @ String_nat c) (int fl) t"
  note a = addSpot_numbered[OF Suc.prems refl, of t "int fl"]
  from Suc.IH[OF a(2)] a(1) show ?case
    by (simp add: ParkingSpot_new_def replicate_app_Cons_same)
qed

lemma addFloor_numbered:
  assumes "spots_numbered c repo"
  shows "fst (addFloor spf fl (c, repo)) = c + spotsPerFloorTotal spf
    \<and> spots_numbered (c + spotsPerFloorTotal spf) (snd (addFloor spf fl (c, repo)))
    \<and> map spotType (getAllSpots (snd (addFloor spf fl (c, repo)))) =
        map spotType (getAllSpots repo) @ floorTypes spf
    \<and> map floor_spot (getAllSpots (snd (addFloor spf fl (c, repo)))) =
        map floor_spot (getAllSpots repo) @ replicate (spotsPerFloorTotal spf) (int fl)"
proof -
  let ?m = "spf MOTORCYCLE_SPOT" and ?c = "spf COMPACT" and ?l = "spf LARGE"
  let ?s1 = "addSpots ''M'' MOTORCYCLE_SPOT fl ?m (c, repo)"
  let ?s2 = "addSpots ''C'' COMPACT fl ?c ?s1"
  let ?s3 = "addSpots ''L'' LARGE fl ?l ?s2"
  from addSpots_numbered[OF assms, of MOTORCYCLE_SPOT fl ?m]
  have s1: "?s1 = (c + ?m, snd ?s1)" "spots_numbered (c + ?m) (snd ?s1)"
    "map spotType (getAllSpots (snd ?s1)) =
       map spotType (getAllSpots repo) @ replicate ?m MOTORCYCLE_SPOT"
    "map floor_spot (getAllSpots (snd ?s1)) =
       map floor_spot (getAllSpots repo) @ replicate ?m (int fl)"
    by (simp_all add: prod_eq_iff)
  from addSpots_numbered[OF s1(2), of COMPACT fl ?c] s1(1)
  have s2: "?s2 = (c + ?m + ?c, snd ?s2)" "spots_numbered (c + ?m + ?c) (snd ?s2)"
    "map spotType (getAllSpots (snd ?s2)) =
       map spotType (getAllSpots (snd ?s1)) @ replicate ?c COMPACT"
    "map floor_spot (getAllSpots (snd ?s2)) =
       map floor_spot (getAllSpots (snd ?s1)) @ replicate ?c (int fl)"
    by (simp_all add: prod_eq_iff)
  from addSpots_numbered[OF s2(2), of LARGE fl ?l] s2(1)
  have s3: "fst ?s3 = c + ?m + ?c + ?l" "spots_numbered (c + ?m + ?c + ?l) (snd ?s3)"
    "map spotType (getAllSpots (snd ?s3)) =
       map spotType (getAllSpots (snd ?s2)) @ replicate ?l LARGE"
    "map floor_spot (getAllSpots (snd ?s3)) =
       map floor_spot (getAllSpots (snd ?s2)) @ replicate ?l (int fl)"
    by simp_all
  have eq: "addFloor spf fl (c, repo) = ?s3" by (simp add: addFloor_def)
  show ?thesis
    unfolding eq using s3 s2(3,4) s1(3,4)
    by (simp add: spotsPerFloorTotal_def floorTypes_def add.assoc replicate_add)
qed

lemma floorLoop_numbered:
  assumes "spots_numbered c repo"
  shows "spots_numbered (c + (Suc floors - fl) * spotsPerFloorTotal spf)
        (snd (floorLoop fl floors spf (c, repo)))
    \<and> map spotType (getAllSpots (snd (floorLoop fl floors spf (c, repo)))) =
        map spotType (getAllSpots repo) @ concat (replicate (Suc floors - fl) (floorTypes spf))
    \<and> map floor_spot (getAllSpots (snd (floorLoop fl floors spf (c, repo)))) =
        map floor_spot (getAllSpots repo)
          @ concat (map (\<lambda>f. replicate (spotsPerFloorTotal spf) (int f)) [fl..<Suc floors])"
  using assms
proof (induction fl floors spf "(c, repo)" arbitrary: c repo rule: floorLoop.induct)
  case (1 fl floors spf)
  show ?case
  proof (cases "fl \<le> floors")
    case False
    with 1(2) show ?thesis by (simp add: floorLoop.simps[of fl])
  next
    case True
    let ?p = "spotsPerFloorTotal spf"
    note f = addFloor_numbered[OF 1(2), of spf fl]
    then have st: "addFloor spf fl (c, repo) = (c + ?p, snd (addFloor spf fl (c, repo)))"
      by (simp add: prod_eq_iff)
    from f have num: "spots_numbered (c + ?p) (snd (addFloor spf fl (c, repo)))" by simp
    note ih = 1(1)[OF True st num]
    have step: "floorLoop fl floors spf (c, repo) =
        floorLoop (fl + 1) floors spf (c + ?p, snd (addFloor spf fl (c, repo)))"
      using True st by (simp add: floorLoop.simps[of fl])
    have cnt: "c + ?p + (Suc floors - (fl + 1)) * ?p = c + (Suc floors - fl) * ?p"
      using True by (simp add: Suc_diff_le)
    have rep: "replicate (Suc floors - fl) (floorTypes spf) =
        floorTypes spf # replicate (Suc floors - (fl + 1)) (floorTypes spf)"
      using True by (simp add: Suc_diff_le)
    have upt: "[fl..<Suc floors] = fl # [fl + 1..<Suc floors]"
      using True by (simp add: upt_conv_Cons)
    show ?thesis
      unfolding step upt using ih f True by (simp del: upt_Suc add: Suc_diff_le add.assoc)
  qed
qed

lemma initialLot_numbered:
  "spots_numbered (1 + floors * spotsPerFloorTotal spf) (repository (initialLot fc floors spf))"
  "map spotType (getAllSpots (repository (initialLot fc floors spf))) =
     concat (replicate floors (floorTypes spf))"
  "map floor_spot (getAllSpots (repository (initialLot fc floors spf))) =
     concat (map (\<lambda>f. replicate (spotsPerFloorTotal spf) (int f)) [1..<Suc floors])"
proof -
  have "spots_numbered 1 ParkingLotRepository_new"
    by (simp add: spots_numbered_def spots_wf_def ParkingLotRepository_new_def getAllSpots_def)
  from floorLoop_numbered[OF this, of floors 1 spf]
  show "spots_numbered (1 + floors * spotsPerFloorTotal spf) (repository (initialLot fc floors spf))"
    "map spotType (getAllSpots (repository (initialLot fc floors spf))) =
     concat (replicate floors (floorTypes spf))"
    "map floor_spot (getAllSpots (repository (initialLot fc floors spf))) =
     concat (map (\<lambda>f. replicate (spotsPerFloorTotal spf) (int f)) [1..<Suc floors])"
    by (simp_all add: initialLot_def initializeParkingLot_def ParkingLotService_new_def
        ParkingLotRepository_new_def getAllSpots_def)
qed

text \<open>
  Claim C9, as the code numbers the spots. \<open>initializeParkingLot\<close> on a new repository
  creates \<open>floors\<close> times (sum of the three counts) spots and stores each under its
  identifier. They are created floor by floor, from floor 1 to \<open>floors\<close>, on each floor the
  motorcycle spots, then the compact spots, then the large spots, each with its floor number
  and its type, available and without occupant. The identifiers come from one counter that
  all types share: the spot created as number \<open>k\<close> has the letter of its type followed by
  the decimal notation of \<open>k\<close>, so the identifiers are distinct.
\<close>

theorem initializeParkingLot_spots:
  "length (getAllSpots (repository (initialLot fc floors spf))) = floors * spotsPerFloorTotal spf
   \<and> map spotType (getAllSpots (repository (initialLot fc floors spf))) =
       concat (replicate floors (floorTypes spf))
   \<and> map floor_spot (getAllSpots (repository (initialLot fc floors spf))) =
       concat (map (\<lambda>f. replicate (spotsPerFloorTotal spf) (int f)) [1..<Suc floors])
   \<and> map id_spot (getAllSpots (repository (initialLot fc floors spf))) =
       map2 (\<lambda>k t. letterOf t @ String_nat k) [1..<Suc (floors * spotsPerFloorTotal spf)]
         (map spotType (getAllSpots (repository (initialLot fc floors spf))))
   \<and> distinct (map id_spot (getAllSpots (repository (initialLot fc floors spf))))
   \<and> (\<forall>sp \<in> set (getAllSpots (repository (initialLot fc floors spf))).
         1 \<le> floor_spot sp \<and> floor_spot sp \<le> int floors
         \<and> isAvailable sp \<and> currentVehicleLicense sp = None
         \<and> getSpot (repository (initialLot fc floors spf)) (id_spot sp) = Some sp)"
proof -
  let ?R = "repository (initialLot fc floors spf)"
  note n = initialLot_numbered[where floors = floors and spf = spf and fc = fc]
  from n(1) have wf: "spots_wf ?R" by (simp add: spots_numbered_def)
  from n(1) have len: "length (getAllSpots ?R) = floors * spotsPerFloorTotal spf"
    by (simp add: spots_numbered_def getAllSpots_def)
  from n(1) have ids: "map id_spot (getAllSpots ?R) =
      map2 (\<lambda>k t. letterOf t @ String_nat k) [1..<Suc (floors * spotsPerFloorTotal spf)]
        (map spotType (getAllSpots ?R))"
    by (simp add: spots_numbered_def)
  from wf have dist: "distinct (map id_spot (getAllSpots ?R))"
    using spots_wf_keys[of ?R] by (simp add: spots_wf_def)
  have each: "1 \<le> floor_spot sp \<and> floor_spot sp \<le> int floors
         \<and> isAvailable sp \<and> currentVehicleLicense sp = None
         \<and> getSpot ?R (id_spot sp) = Some sp" if "sp \<in> set (getAllSpots ?R)" for sp
  proof -
    from that have "floor_spot sp \<in> set (map floor_spot (getAllSpots ?R))" by simp
    then have "floor_spot sp \<in>
        set (concat (map (\<lambda>f. replicate (spotsPerFloorTotal spf) (int f)) [1..<Suc floors]))"
      by (simp only: n(3))
    then have "1 \<le> floor_spot sp \<and> floor_spot sp \<le> int floors"
      by (auto simp del: upt_Suc)
    moreover from n(1) that have "isAvailable sp \<and> currentVehicleLicense sp = None"
      by (simp add: spots_numbered_def)
    moreover from wf that have "getSpot ?R (id_spot sp) = Some sp"
      by (rule spots_wf_getSpot)
    ultimately show ?thesis by simp
  qed
  from len n(2) n(3) ids dist each show ?thesis by blast
qed

theorem initializeParkingLot_spots_witness:
  "\<lparr>id_spot = ''L4'', floor_spot = 1, spotType = LARGE, isAvailable = True,
     currentVehicleLicense = None\<rparr> \<in> set (getAllSpots (repository exampleLot))
   \<and> length (getAllSpots (repository exampleLot)) = 8
   \<and> getSpot (repository exampleLot) ''L4'' =
       Some \<lparr>id_spot = ''L4'', floor_spot = 1, spotType = LARGE, isAvailable = True,
             currentVehicleLicense = None\<rparr>"
proof -
  let ?L4 = "\<lparr>id_spot = ''L4'', floor_spot = 1, spotType = LARGE, isAvailable = True,
     currentVehicleLicense = None\<rparr>"
  have m: "?L4 \<in> set (getAllSpots (repository exampleLot))" by code_simp
  note th = initializeParkingLot_spots[where fc = "FeeCalculator_new None" and floors = 2
      and spf = exampleSpotsPerFloor, folded exampleLot_def]
  from th have "length (getAllSpots (repository exampleLot)) =
      2 * spotsPerFloorTotal exampleSpotsPerFloor" by (rule conjunct1)
  then have l: "length (getAllSpots (repository exampleLot)) = 8"
    by (simp add: spotsPerFloorTotal_def exampleSpotsPerFloor_def)
  from th have "\<forall>sp \<in> set (getAllSpots (repository exampleLot)).
         1 \<le> floor_spot sp \<and> floor_spot sp \<le> int 2
         \<and> isAvailable sp \<and> currentVehicleLicense sp = None
         \<and> getSpot (repository exampleLot) (id_spot sp) = Some sp"
    by (elim conjE)
  from this[rule_format, OF m] have g: "getSpot (repository exampleLot) ''L4'' = Some ?L4"
    by simp
  from m l g show ?thesis by (intro conjI)
qed

text \<open>
  The numbering is not one counter for each class: in the example lot the first compact
  spot is \<open>C2\<close>, and the compact spots are \<open>C2\<close>, \<open>C3\<close>, \<open>C6\<close>, \<open>C7\<close>.
\<close>

theorem initializeParkingLot_not_per_class:
  "map id_spot (getAllSpots (repository exampleLot)) =
     [''M1'', ''C2'', ''C3'', ''L4'', ''M5'', ''C6'', ''C7'', ''L8'']
   \<and> perClassSpotIds 2 exampleSpotsPerFloor =
     [''M1'', ''C1'', ''C2'', ''L1'', ''M2'', ''C3'', ''C4'', ''L2'']
   \<and> map id_spot (getAllSpots (repository exampleLot)) \<noteq> perClassSpotIds 2 exampleSpotsPerFloor"
proof -
  have a: "map id_spot (getAllSpots (repository exampleLot)) =
     [''M1'', ''C2'', ''C3'', ''L4'', ''M5'', ''C6'', ''C7'', ''L8'']" by code_simp
  have b: "perClassSpotIds 2 exampleSpotsPerFloor =
     [''M1'', ''C1'', ''C2'', ''L1'', ''M2'', ''C3'', ''C4'', ''L2'']" by code_simp
  from a b show ?thesis by simp
qed

section \<open>Association lists and ticket identifiers\<close>

lemma set_update_subset: "set (AList.update k v al) \<subseteq> insert (k, v) (set al)"
  by (induction al) auto

lemma set_update_distinct:
  assumes "distinct (map fst al)" "(k', v') \<in> set (AList.update k v al)"
  shows "(k', v') = (k, v) \<or> ((k', v') \<in> set al \<and> k' \<noteq> k)"
  using assms
proof (induction al)
  case Nil
  then show ?case by simp
next
  case (Cons p al)
  then show ?case by (cases "fst p = k") (auto simp: image_iff)
qed

lemma set_update_other:
  "(k', v') \<in> set al \<Longrightarrow> k' \<noteq> k \<Longrightarrow> (k', v') \<in> set (AList.update k v al)"
  by (induction al) auto

lemma set_update_same: "(k, v) \<in> set (AList.update k v al)"
  by (induction al) auto

lemma decode_nat_zeros: "decode_nat (replicate k CHR ''0'' @ s) = decode_nat s"
proof -
  have "foldl (\<lambda>a c. 10 * a + digit_val c) 0 (replicate k CHR ''0'') = 0"
    by (induction k) (simp_all add: digit_val_def)
  then show ?thesis by (simp add: decode_nat_def)
qed

lemma ticketIdOf_inj: "ticketIdOf a = ticketIdOf b \<Longrightarrow> a = b"
proof -
  assume "ticketIdOf a = ticketIdOf b"
  then have "decode_nat (padStart 6 CHR ''0'' (String_nat a)) =
      decode_nat (padStart 6 CHR ''0'' (String_nat b))"
    by (simp add: ticketIdOf_def)
  then show "a = b" by (simp add: padStart_def decode_nat_zeros decode_String_nat)
qed

lemma tickets_wf_fresh:
  assumes "tickets_wf svc"
  shows "ticketIdOf (ticketCounter svc) \<notin> fst ` set (tickets (repository svc))"
proof
  assume "ticketIdOf (ticketCounter svc) \<in> fst ` set (tickets (repository svc))"
  then obtain t where "(ticketIdOf (ticketCounter svc), t) \<in> set (tickets (repository svc))"
    by auto
  with assms obtain n where "n < ticketCounter svc" "ticketIdOf (ticketCounter svc) = ticketIdOf n"
    by (auto simp: tickets_wf_def)
  then show False by (auto dest: ticketIdOf_inj)
qed

lemma tickets_wf_lookup:
  assumes "tickets_wf svc"
  shows "map_of (tickets (repository svc)) k = Some t \<longleftrightarrow> (k, t) \<in> set (tickets (repository svc))"
  using assms by (auto simp: tickets_wf_def dest: map_of_SomeD)

lemma tickets_wf_id:
  "tickets_wf svc \<Longrightarrow> (k, t) \<in> set (tickets (repository svc)) \<Longrightarrow> ticketId t = k"
  by (auto simp: tickets_wf_def)

lemma getActiveTickets_iff:
  "t \<in> set (getActiveTickets repo) \<longleftrightarrow> isActive t \<and> (\<exists>k. (k, t) \<in> set (tickets repo))"
  by (force simp: getActiveTickets_def getAllTickets_def)

lemma getActiveTicketByVehicle_SomeD:
  assumes "getActiveTicketByVehicle repo plate = Some t"
  obtains tid where "map_of (activeTicketsByVehicle repo) plate = Some tid"
    "map_of (tickets repo) tid = Some t"
  using assms by (auto simp: getActiveTicketByVehicle_def split: option.splits)

section \<open>The well-formedness of the spot map is kept\<close>

lemma spots_wf_update:
  assumes "spots_wf repo" "id_spot sp = k"
  shows "spots_wf (repo\<lparr>spots := AList.update k sp (spots repo)\<rparr>)"
proof -
  have "distinct (map fst (AList.update k sp (spots repo)))"
    using assms(1) by (simp add: spots_wf_def distinct_update)
  moreover have "\<forall>(k', sp') \<in> set (AList.update k sp (spots repo)). id_spot sp' = k'"
    using assms set_update_subset[of k sp "spots repo"] by (auto simp: spots_wf_def)
  ultimately show ?thesis by (simp add: spots_wf_def)
qed

lemma ParkingLotRepository_new_spots_wf: "spots_wf ParkingLotRepository_new"
  by (simp add: spots_wf_def ParkingLotRepository_new_def)

lemma addSpot_spots_wf: "spots_wf repo \<Longrightarrow> spots_wf (addSpot sp repo)"
  unfolding addSpot_def by (rule spots_wf_update) simp_all

lemma spots_wf_tickets_update [simp]:
  "spots_wf (repo\<lparr>tickets := ts\<rparr>) = spots_wf repo"
  "spots_wf (repo\<lparr>activeTicketsByVehicle := ix\<rparr>) = spots_wf repo"
  by (simp_all add: spots_wf_def)

lemma spots_wf_getSpot_id:
  "spots_wf repo \<Longrightarrow> getSpot repo k = Some sp \<Longrightarrow> id_spot sp = k"
  by (auto simp: spots_wf_def getSpot_def dest: map_of_SomeD)

lemma candidates_getAllSpots: "sp \<in> candidates repo vt \<Longrightarrow> sp \<in> set (getAllSpots repo)"
  by (simp add: candidates_def)

lemma allocateSpot_spots_wf:
  assumes "spots_wf repo"
  shows "spots_wf (snd (allocateSpot env vt lic repo))"
proof (cases "candidates repo vt = {}")
  case True
  with assms show ?thesis by (simp add: allocateSpot_None)
next
  case False
  from allocateSpot_Some[OF False, where env = env and lic = lic] obtain sel where
    "allocateSpot env vt lic repo =
       (Inr (Some (sel\<lparr>isAvailable := False, currentVehicleLicense := Some lic\<rparr>)),
        repo\<lparr>spots := AList.update (id_spot sel)
           (sel\<lparr>isAvailable := False, currentVehicleLicense := Some lic\<rparr>) (spots repo)\<rparr>)"
    by blast
  then show ?thesis using spots_wf_update[OF assms, of _ "id_spot sel"] by simp
qed

lemma releaseSpot_spots_wf:
  assumes "spots_wf repo"
  shows "spots_wf (snd (releaseSpot k repo))"
proof (cases "getSpot repo k")
  case None
  with assms show ?thesis by (simp add: releaseSpot_None)
next
  case (Some sp)
  then have "id_spot (release sp) = k"
    using spots_wf_getSpot_id[OF assms Some] by (simp add: release_def)
  from spots_wf_update[OF assms this] Some show ?thesis by (simp add: releaseSpot_Some)
qed

lemma allocateSpot_frame:
  "tickets (snd (allocateSpot env vt lic repo)) = tickets repo"
  "activeTicketsByVehicle (snd (allocateSpot env vt lic repo)) = activeTicketsByVehicle repo"
  by (cases "candidates repo vt = {}";
      use allocateSpot_None[where env = env and repo = repo and vt = vt and lic = lic] allocateSpot_Some[where env = env and repo = repo and vt = vt and lic = lic] in auto)+

lemma releaseSpot_frame:
  "tickets (snd (releaseSpot k repo)) = tickets repo"
  "activeTicketsByVehicle (snd (releaseSpot k repo)) = activeTicketsByVehicle repo"
  by (cases "getSpot repo k"; simp add: releaseSpot_None releaseSpot_Some)+

section \<open>The state after a successful check-in\<close>

lemma checkInVehicle_success_state:
  assumes "checkInVehicle env v now svc =
          (Inr (Some (ParkingTicket_new (ticketIdOf (ticketCounter svc)) v sel now)),
           svc\<lparr>repository :=
                  addTicket (ParkingTicket_new (ticketIdOf (ticketCounter svc)) v sel now)
                    ((repository svc)\<lparr>spots := AList.update (id_spot sel)
                       (sel\<lparr>isAvailable := False, currentVehicleLicense := Some (licensePlate v)\<rparr>)
                       (spots (repository svc))\<rparr>),
                ticketCounter := ticketCounter svc + 1\<rparr>)"
  shows "spots (repository (snd (checkInVehicle env v now svc))) =
      AList.update (id_spot sel)
        (sel\<lparr>isAvailable := False, currentVehicleLicense := Some (licensePlate v)\<rparr>)
        (spots (repository svc))"
    and "tickets (repository (snd (checkInVehicle env v now svc))) =
      AList.update (ticketIdOf (ticketCounter svc))
        (ParkingTicket_new (ticketIdOf (ticketCounter svc)) v sel now) (tickets (repository svc))"
    and "activeTicketsByVehicle (repository (snd (checkInVehicle env v now svc))) =
      AList.update (licensePlate v) (ticketIdOf (ticketCounter svc))
        (activeTicketsByVehicle (repository svc))"
    and "ticketCounter (snd (checkInVehicle env v now svc)) = Suc (ticketCounter svc)"
    and "feeCalculator (snd (checkInVehicle env v now svc)) = feeCalculator svc"
  unfolding assms
  by (simp_all add: addTicket_def Let_def ParkingTicket_new_def isActive_def)

lemma checkInVehicle_lot_inv:
  assumes "lot_inv svc"
  shows "lot_inv (snd (checkInVehicle env v now svc))"
proof (cases rule: checkInVehicle_cases[where env = env and svc = svc and v = v and now = now])
  case (parked t)
  with assms show ?thesis by simp
next
  case full
  with assms show ?thesis by simp
next
  case (success sel)
  let ?svc' = "snd (checkInVehicle env v now svc)"
  let ?tid = "ticketIdOf (ticketCounter svc)"
  let ?S = "ParkingTicket_new ?tid v sel now"
  let ?occ = "sel\<lparr>isAvailable := False, currentVehicleLicense := Some (licensePlate v)\<rparr>"
  note st = checkInVehicle_success_state[OF success(4)]
  from assms have wf: "spots_wf (repository svc)" and twf: "tickets_wf svc"
    and iwf: "index_wf (repository svc)"
    by (simp_all add: lot_inv_def)
  have fresh: "?tid \<notin> fst ` set (tickets (repository svc))"
    by (rule tickets_wf_fresh[OF twf])
  have 1: "spots_wf (repository ?svc')"
  proof -
    have "distinct (map fst (spots (repository ?svc')))"
      using wf by (simp add: st(1) spots_wf_def distinct_update)
    moreover have "\<forall>(k, sp) \<in> set (spots (repository ?svc')). id_spot sp = k"
      using wf set_update_subset[of "id_spot sel" ?occ "spots (repository svc)"]
      by (auto simp: st(1) spots_wf_def)
    ultimately show ?thesis by (simp add: spots_wf_def)
  qed
  have 2: "tickets_wf ?svc'"
  proof -
    have "distinct (map fst (tickets (repository ?svc')))"
      using twf by (simp add: st(2) tickets_wf_def distinct_update)
    moreover have "ticketId t = k \<and> (\<exists>n < ticketCounter ?svc'. k = ticketIdOf n)"
      if "(k, t) \<in> set (tickets (repository ?svc'))" for k t
    proof -
      from that set_update_subset[of ?tid ?S "tickets (repository svc)"]
      consider "(k, t) = (?tid, ?S)" | "(k, t) \<in> set (tickets (repository svc))"
        by (auto simp: st(2))
      then show ?thesis
      proof cases
        case 1
        then show ?thesis by (auto simp: st(4) ParkingTicket_new_def)
      next
        case 2
        with twf obtain n where "ticketId t = k" "n < ticketCounter svc" "k = ticketIdOf n"
          by (auto simp: tickets_wf_def)
        then show ?thesis by (auto simp: st(4) intro: less_SucI)
      qed
    qed
    ultimately show ?thesis by (auto simp: tickets_wf_def)
  qed
  have 3: "index_wf (repository ?svc')"
    unfolding index_wf_def
  proof (intro allI impI)
    fix p tid
    assume a: "map_of (activeTicketsByVehicle (repository ?svc')) p = Some tid"
    show "\<exists>t. map_of (tickets (repository ?svc')) tid = Some t \<and> isActive t
        \<and> licensePlate (vehicle t) = p"
    proof (cases "p = licensePlate v")
      case True
      with a have "tid = ?tid" by (simp add: st(3) update_conv')
      then show ?thesis using True
        by (simp add: st(2) update_conv' ParkingTicket_new_def isActive_def)
    next
      case False
      with a have "map_of (activeTicketsByVehicle (repository svc)) p = Some tid"
        by (simp add: st(3) update_conv')
      with iwf obtain t where t: "map_of (tickets (repository svc)) tid = Some t"
        "isActive t" "licensePlate (vehicle t) = p"
        by (auto simp: index_wf_def)
      from t(1) have "tid \<in> fst ` set (tickets (repository svc))"
        by (auto dest: map_of_SomeD intro: rev_image_eqI)
      with fresh have "tid \<noteq> ?tid" by blast
      with t show ?thesis by (simp add: st(2) update_conv')
    qed
  qed
  from 1 2 3 show ?thesis by (simp add: lot_inv_def)
qed

section \<open>The state after a check-out that completed the ticket\<close>

lemma checkOutVehicle_lot_inv:
  assumes "lot_inv svc"
  shows "lot_inv (snd (checkOutVehicle env plate exit now svc))"
proof -
  from assms have wf: "spots_wf (repository svc)" and twf: "tickets_wf svc"
    and iwf: "index_wf (repository svc)"
    by (simp_all add: lot_inv_def)
  have completed_inv:
    "tickets_wf (svc\<lparr>repository := (repository svc)
         \<lparr>tickets := AList.update (ticketId t) (t\<lparr>exitTime := Some exit, fee := Some f\<rparr>)
                       (tickets (repository svc)),
          activeTicketsByVehicle :=
            AList.delete (licensePlate (vehicle t)) (activeTicketsByVehicle (repository svc)),
          spots := sps\<rparr>\<rparr>)
     \<and> index_wf ((repository svc)
         \<lparr>tickets := AList.update (ticketId t) (t\<lparr>exitTime := Some exit, fee := Some f\<rparr>)
                       (tickets (repository svc)),
          activeTicketsByVehicle :=
            AList.delete (licensePlate (vehicle t)) (activeTicketsByVehicle (repository svc)),
          spots := sps\<rparr>)"
    if got: "getActiveTicketByVehicle (repository svc) plate = Some t" for t f sps
  proof -
    let ?t' = "t\<lparr>exitTime := Some exit, fee := Some f\<rparr>"
    from got obtain tid where tid: "map_of (activeTicketsByVehicle (repository svc)) plate = Some tid"
      "map_of (tickets (repository svc)) tid = Some t"
      by (rule getActiveTicketByVehicle_SomeD)
    from tid(2) have mem: "(tid, t) \<in> set (tickets (repository svc))" by (rule map_of_SomeD)
    with twf have id: "ticketId t = tid" by (rule tickets_wf_id)
    from iwf tid have pl: "licensePlate (vehicle t) = plate"
      unfolding index_wf_def by fastforce
    have a: "tickets_wf (svc\<lparr>repository := (repository svc)
         \<lparr>tickets := AList.update (ticketId t) ?t' (tickets (repository svc)),
          activeTicketsByVehicle :=
            AList.delete (licensePlate (vehicle t)) (activeTicketsByVehicle (repository svc)),
          spots := sps\<rparr>\<rparr>)"
    proof -
      have "distinct (map fst (AList.update (ticketId t) ?t' (tickets (repository svc))))"
        using twf by (simp add: tickets_wf_def distinct_update)
      moreover have "ticketId u = k \<and> (\<exists>n < ticketCounter svc. k = ticketIdOf n)"
        if "(k, u) \<in> set (AList.update (ticketId t) ?t' (tickets (repository svc)))" for k u
      proof -
        from that set_update_subset[of "ticketId t" ?t' "tickets (repository svc)"]
        consider "(k, u) = (ticketId t, ?t')" | "(k, u) \<in> set (tickets (repository svc))"
          by auto
        then show ?thesis
        proof cases
          case 1
          with twf mem id show ?thesis by (auto simp: tickets_wf_def)
        next
          case 2
          with twf show ?thesis by (auto simp: tickets_wf_def)
        qed
      qed
      ultimately show ?thesis by (auto simp: tickets_wf_def)
    qed
    have b: "index_wf ((repository svc)
         \<lparr>tickets := AList.update (ticketId t) ?t' (tickets (repository svc)),
          activeTicketsByVehicle :=
            AList.delete (licensePlate (vehicle t)) (activeTicketsByVehicle (repository svc)),
          spots := sps\<rparr>)"
      unfolding index_wf_def
    proof (intro allI impI)
      fix p k
      assume "map_of (activeTicketsByVehicle ((repository svc)
         \<lparr>tickets := AList.update (ticketId t) ?t' (tickets (repository svc)),
          activeTicketsByVehicle :=
            AList.delete (licensePlate (vehicle t)) (activeTicketsByVehicle (repository svc)),
          spots := sps\<rparr>)) p = Some k"
      then have pk: "p \<noteq> plate" "map_of (activeTicketsByVehicle (repository svc)) p = Some k"
        using pl by (auto simp: delete_conv' split: if_splits)
      with iwf obtain u where u: "map_of (tickets (repository svc)) k = Some u"
        "isActive u" "licensePlate (vehicle u) = p"
        by (auto simp: index_wf_def)
      have "k \<noteq> tid"
      proof
        assume "k = tid"
        with u(1) tid(2) have "u = t" by simp
        with u(3) pl pk(1) show False by simp
      qed
      with u id show "\<exists>t'. map_of (tickets ((repository svc)
         \<lparr>tickets := AList.update (ticketId t) ?t' (tickets (repository svc)),
          activeTicketsByVehicle :=
            AList.delete (licensePlate (vehicle t)) (activeTicketsByVehicle (repository svc)),
          spots := sps\<rparr>)) k = Some t' \<and> isActive t' \<and> licensePlate (vehicle t') = p"
        by (simp add: update_conv')
    qed
    from a b show ?thesis by simp
  qed
  show ?thesis
  proof (cases rule: checkOutVehicle_cases[where env = env and svc = svc and plate = plate and exit = exit
        and now = now])
    case none
    with assms show ?thesis by simp
  next
    case (norate t e)
    with assms show ?thesis by simp
  next
    case (completed t)
    with assms show ?thesis by simp
  next
    case (nospot t f)
    from completed_inv[OF nospot(1), where f = f and sps = "spots (repository svc)"] wf
    show ?thesis by (simp add: nospot(5) lot_inv_def spots_wf_def)
  next
    case (ok t f sp)
    have "id_spot (release sp) = spot t"
      using spots_wf_getSpot_id[OF wf ok(4)] by (simp add: release_def)
    from spots_wf_update[OF wf this]
    have "spots_wf ((repository svc)
        \<lparr>spots := AList.update (spot t) (release sp) (spots (repository svc))\<rparr>)" .
    then have s: "distinct (map fst (AList.update (spot t) (release sp) (spots (repository svc))))"
      "\<forall>(k, s) \<in> set (AList.update (spot t) (release sp) (spots (repository svc))). id_spot s = k"
      by (simp_all add: spots_wf_def)
    from completed_inv[OF ok(1), where f = f
        and sps = "AList.update (spot t) (release sp) (spots (repository svc))"] s
    show ?thesis by (simp add: ok(5) lot_inv_def spots_wf_def)
  qed
qed

lemma tickets_wf_frame:
  assumes "tickets (repository svc') = tickets (repository svc)"
    and "ticketCounter svc' = ticketCounter svc"
  shows "tickets_wf svc' = tickets_wf svc"
  by (simp only: tickets_wf_def assms)

lemma index_wf_frame:
  assumes "tickets repo' = tickets repo"
    and "activeTicketsByVehicle repo' = activeTicketsByVehicle repo"
  shows "index_wf repo' = index_wf repo"
  by (simp only: index_wf_def assms)

lemma apply_op_lot_inv:
  assumes "lot_inv svc"
  shows "lot_inv (apply_op env op svc)"
proof (cases op)
  case (CheckIn v now)
  with assms show ?thesis by (simp add: checkInVehicle_lot_inv)
next
  case (CheckOut plate exit now)
  with assms show ?thesis by (simp add: checkOutVehicle_lot_inv)
next
  case (Allocate vt lic)
  let ?svc' = "svc\<lparr>repository := snd (allocateSpot env vt lic (repository svc))\<rparr>"
  have "tickets_wf ?svc' = tickets_wf svc"
    by (rule tickets_wf_frame) (simp_all add: allocateSpot_frame)
  moreover have "index_wf (repository ?svc') = index_wf (repository svc)"
    by (rule index_wf_frame) (simp_all add: allocateSpot_frame)
  moreover have "spots_wf (repository ?svc')"
    using assms allocateSpot_spots_wf[where env = env and repo = "repository svc" and vt = vt and lic = lic] by (simp add: lot_inv_def)
  ultimately show ?thesis using assms Allocate by (simp add: lot_inv_def)
next
  case (Release k)
  let ?svc' = "svc\<lparr>repository := snd (releaseSpot k (repository svc))\<rparr>"
  have "tickets_wf ?svc' = tickets_wf svc"
    by (rule tickets_wf_frame) (simp_all add: releaseSpot_frame)
  moreover have "index_wf (repository ?svc') = index_wf (repository svc)"
    by (rule index_wf_frame) (simp_all add: releaseSpot_frame)
  moreover have "spots_wf (repository ?svc')"
    using assms releaseSpot_spots_wf[of "repository svc" k] by (simp add: lot_inv_def)
  ultimately show ?thesis using assms Release by (simp add: lot_inv_def)
qed

lemma run_lot_inv: "lot_inv svc \<Longrightarrow> lot_inv (run env ops svc)"
  by (induction ops arbitrary: svc) (simp_all add: apply_op_lot_inv)

lemma initialLot_lot_inv: "lot_inv (initialLot fc floors spf)"
proof -
  from initialLot_numbered(1)[of floors spf fc]
  have "spots_wf (repository (initialLot fc floors spf))" by (simp add: spots_numbered_def)
  then show ?thesis
    by (simp add: lot_inv_def tickets_wf_def index_wf_def initialLot_tickets)
qed

section \<open>Occupancy\<close>

lemma occupancy_invI:
  assumes "\<And>t. t \<in> set (getActiveTickets repo) \<Longrightarrow>
      \<exists>sp. getSpot repo (spot t) = Some sp \<and> \<not> isAvailable sp
        \<and> currentVehicleLicense sp = Some (licensePlate (vehicle t))"
    and "\<And>t1 t2. t1 \<in> set (getActiveTickets repo) \<Longrightarrow> t2 \<in> set (getActiveTickets repo) \<Longrightarrow>
      t1 \<noteq> t2 \<Longrightarrow> spot t1 \<noteq> spot t2"
  shows "occupancy_inv repo"
  unfolding occupancy_inv_def
proof (intro conjI ballI impI)
  fix t assume "t \<in> set (getActiveTickets repo)"
  from assms(1)[OF this] show "case getSpot repo (spot t) of None \<Rightarrow> False
      | Some sp \<Rightarrow> \<not> isAvailable sp \<and> currentVehicleLicense sp = Some (licensePlate (vehicle t))"
    by auto
next
  fix t1 t2
  assume "t1 \<in> set (getActiveTickets repo)" "t2 \<in> set (getActiveTickets repo)" "t1 \<noteq> t2"
  then show "spot t1 \<noteq> spot t2" by (rule assms(2))
qed

lemma occupancy_inv_spot:
  assumes "occupancy_inv repo" "t \<in> set (getActiveTickets repo)"
  obtains sp where "getSpot repo (spot t) = Some sp" "\<not> isAvailable sp"
    "currentVehicleLicense sp = Some (licensePlate (vehicle t))"
  using assms by (auto simp: occupancy_inv_def split: option.splits)

lemma occupancy_inv_distinct:
  assumes "occupancy_inv repo" "t1 \<in> set (getActiveTickets repo)"
    "t2 \<in> set (getActiveTickets repo)" "t1 \<noteq> t2"
  shows "spot t1 \<noteq> spot t2"
  using assms by (auto simp: occupancy_inv_def)

lemma occupancy_inv_not_available:
  assumes "occupancy_inv repo" "t \<in> set (getActiveTickets repo)"
    "getSpot repo k = Some sp" "isAvailable sp"
  shows "spot t \<noteq> k"
proof
  assume "spot t = k"
  with occupancy_inv_spot[OF assms(1,2)] assms(3,4) show False by auto
qed

lemma getSpot_update_other:
  "k' \<noteq> k \<Longrightarrow> getSpot (repo\<lparr>spots := AList.update k sp (spots repo)\<rparr>) k' = getSpot repo k'"
  by (simp add: getSpot_def update_conv')

lemma getSpot_update_same:
  "getSpot (repo\<lparr>spots := AList.update k sp (spots repo)\<rparr>) k = Some sp"
  by (simp add: getSpot_def update_conv')

lemma occupancy_inv_occupy:
  assumes occ: "occupancy_inv repo" and wf: "spots_wf repo"
    and sel: "sel \<in> set (getAllSpots repo)" "isAvailable sel"
    and sps: "spots repo' = AList.update (id_spot sel) s' (spots repo)"
    and tks: "tickets repo' = tickets repo"
  shows "occupancy_inv repo'"
proof (rule occupancy_invI)
  have act: "getActiveTickets repo' = getActiveTickets repo"
    by (simp add: getActiveTickets_def getAllTickets_def tks)
  have sel_spot: "getSpot repo (id_spot sel) = Some sel"
    by (rule spots_wf_getSpot[OF wf sel(1)])
  have same: "getSpot repo' (spot t) = getSpot repo (spot t)"
    if "t \<in> set (getActiveTickets repo)" for t
  proof -
    from occupancy_inv_not_available[OF occ that sel_spot sel(2)]
    show ?thesis by (simp add: getSpot_def sps update_conv')
  qed
  show "\<exists>sp. getSpot repo' (spot t) = Some sp \<and> \<not> isAvailable sp
        \<and> currentVehicleLicense sp = Some (licensePlate (vehicle t))"
    if "t \<in> set (getActiveTickets repo')" for t
  proof -
    from that have t: "t \<in> set (getActiveTickets repo)" by (simp only: act)
    from occupancy_inv_spot[OF occ t] same[OF t] show ?thesis by metis
  qed
  show "spot t1 \<noteq> spot t2"
    if "t1 \<in> set (getActiveTickets repo')" "t2 \<in> set (getActiveTickets repo')" "t1 \<noteq> t2"
    for t1 t2
    using that occupancy_inv_distinct[OF occ, of t1 t2] unfolding act by blast
qed

lemma allocateSpot_occupancy:
  assumes "occupancy_inv repo" "spots_wf repo"
  shows "occupancy_inv (snd (allocateSpot env vt lic repo))"
proof (cases "candidates repo vt = {}")
  case True
  with assms show ?thesis by (simp add: allocateSpot_None)
next
  case False
  from allocateSpot_Some[OF False, where env = env and lic = lic] obtain sel where
    sel: "sel \<in> candidates repo vt"
    and res: "allocateSpot env vt lic repo =
       (Inr (Some (sel\<lparr>isAvailable := False, currentVehicleLicense := Some lic\<rparr>)),
        repo\<lparr>spots := AList.update (id_spot sel)
           (sel\<lparr>isAvailable := False, currentVehicleLicense := Some lic\<rparr>) (spots repo)\<rparr>)"
    by blast
  from sel have "sel \<in> set (getAllSpots repo)" "isAvailable sel"
    by (simp_all add: candidates_def)
  from occupancy_inv_occupy[OF assms this, of "snd (allocateSpot env vt lic repo)"] res
  show ?thesis by simp
qed

lemma releaseSpot_occupancy:
  assumes occ: "occupancy_inv repo"
    and free: "k \<notin> set (map spot (getActiveTickets repo))"
  shows "occupancy_inv (snd (releaseSpot k repo))"
proof (cases "getSpot repo k")
  case None
  with occ show ?thesis by (simp add: releaseSpot_None)
next
  case (Some sp)
  let ?repo' = "repo\<lparr>spots := AList.update k (release sp) (spots repo)\<rparr>"
  have act: "getActiveTickets ?repo' = getActiveTickets repo"
    by (simp add: getActiveTickets_def getAllTickets_def)
  have "occupancy_inv ?repo'"
  proof (rule occupancy_invI)
    show "\<exists>sp. getSpot ?repo' (spot t) = Some sp \<and> \<not> isAvailable sp
        \<and> currentVehicleLicense sp = Some (licensePlate (vehicle t))"
      if "t \<in> set (getActiveTickets ?repo')" for t
    proof -
      from that have t: "t \<in> set (getActiveTickets repo)" by (simp only: act)
      with free have "spot t \<noteq> k" by auto
      then have "getSpot ?repo' (spot t) = getSpot repo (spot t)"
        by (rule getSpot_update_other)
      with occupancy_inv_spot[OF occ t] show ?thesis by metis
    qed
    show "spot t1 \<noteq> spot t2"
      if "t1 \<in> set (getActiveTickets ?repo')" "t2 \<in> set (getActiveTickets ?repo')" "t1 \<noteq> t2"
      for t1 t2
      using that occupancy_inv_distinct[OF occ, of t1 t2] unfolding act by blast
  qed
  with Some show ?thesis by (simp add: releaseSpot_Some)
qed

lemma checkInVehicle_occupancy:
  assumes inv: "lot_inv svc" and occ: "occupancy_inv (repository svc)"
  shows "occupancy_inv (repository (snd (checkInVehicle env v now svc)))"
proof (cases rule: checkInVehicle_cases[where env = env and svc = svc and v = v and now = now])
  case (parked t)
  with occ show ?thesis by simp
next
  case full
  with occ show ?thesis by simp
next
  case (success sel)
  let ?R = "repository svc"
  let ?R' = "repository (snd (checkInVehicle env v now svc))"
  let ?tid = "ticketIdOf (ticketCounter svc)"
  let ?S = "ParkingTicket_new ?tid v sel now"
  let ?occ = "sel\<lparr>isAvailable := False, currentVehicleLicense := Some (licensePlate v)\<rparr>"
  note st = checkInVehicle_success_state[OF success(4)]
  from inv have wf: "spots_wf ?R" by (simp add: lot_inv_def)
  from success(2) have sel: "sel \<in> set (getAllSpots ?R)" "isAvailable sel"
    by (simp_all add: candidates_def)
  have sel_spot: "getSpot ?R (id_spot sel) = Some sel"
    by (rule spots_wf_getSpot[OF wf sel(1)])
  have old_or_new: "t = ?S \<or> t \<in> set (getActiveTickets ?R)"
    if "t \<in> set (getActiveTickets ?R')" for t
  proof -
    from that obtain k where "isActive t" "(k, t) \<in> set (tickets ?R')"
      by (auto simp: getActiveTickets_iff)
    with set_update_subset[of ?tid ?S "tickets ?R"] show ?thesis
      by (auto simp: st(2) getActiveTickets_iff)
  qed
  have old_spot: "spot t \<noteq> id_spot sel \<and> getSpot ?R' (spot t) = getSpot ?R (spot t)"
    if "t \<in> set (getActiveTickets ?R)" for t
  proof -
    from occupancy_inv_not_available[OF occ that sel_spot sel(2)]
    show ?thesis by (simp add: getSpot_def st(1) update_conv')
  qed
  have new_spot: "spot ?S = id_spot sel" "getSpot ?R' (spot ?S) = Some ?occ"
    "licensePlate (vehicle ?S) = licensePlate v"
    by (simp_all add: ParkingTicket_new_def getSpot_def st(1) update_conv')
  show ?thesis
  proof (rule occupancy_invI)
    show "\<exists>sp. getSpot ?R' (spot t) = Some sp \<and> \<not> isAvailable sp
        \<and> currentVehicleLicense sp = Some (licensePlate (vehicle t))"
      if "t \<in> set (getActiveTickets ?R')" for t
    proof -
      from old_or_new[OF that] show ?thesis
      proof
        assume "t = ?S"
        with new_spot(2,3) show ?thesis by simp
      next
        assume t: "t \<in> set (getActiveTickets ?R)"
        from occupancy_inv_spot[OF occ t] old_spot[OF t] show ?thesis by metis
      qed
    qed
    show "spot t1 \<noteq> spot t2"
      if "t1 \<in> set (getActiveTickets ?R')" "t2 \<in> set (getActiveTickets ?R')" "t1 \<noteq> t2"
      for t1 t2
      using old_or_new[OF that(1)] old_or_new[OF that(2)] that(3) new_spot(1)
        old_spot[of t1] old_spot[of t2] occupancy_inv_distinct[OF occ, of t1 t2]
      by metis
  qed
qed

lemma checkOutVehicle_occupancy:
  assumes inv: "lot_inv svc" and occ: "occupancy_inv (repository svc)"
  shows "occupancy_inv (repository (snd (checkOutVehicle env plate exit now svc)))"
proof (cases rule: checkOutVehicle_cases[where env = env and svc = svc and plate = plate and exit = exit
      and now = now])
  case none
  with occ show ?thesis by simp
next
  case (norate t e)
  with occ show ?thesis by simp
next
  case (completed t)
  with occ show ?thesis by simp
next
  case (nospot t f)
  from inv have twf: "tickets_wf svc" by (simp add: lot_inv_def)
  from nospot(1) obtain tid where "map_of (tickets (repository svc)) tid = Some t"
    by (rule getActiveTicketByVehicle_SomeD)
  then have "(tid, t) \<in> set (tickets (repository svc))" by (rule map_of_SomeD)
  with nospot(3) have "t \<in> set (getActiveTickets (repository svc))"
    by (auto simp: getActiveTickets_iff)
  from occupancy_inv_spot[OF occ this] nospot(4) show ?thesis by auto
next
  case (ok t f sp)
  let ?R = "repository svc"
  let ?t' = "t\<lparr>exitTime := Some exit, fee := Some f\<rparr>"
  let ?R' = "?R\<lparr>tickets := AList.update (ticketId t) ?t' (tickets ?R),
      activeTicketsByVehicle := AList.delete (licensePlate (vehicle t)) (activeTicketsByVehicle ?R),
      spots := AList.update (spot t) (release sp) (spots ?R)\<rparr>"
  from inv have twf: "tickets_wf svc" by (simp add: lot_inv_def)
  from ok(1) obtain tid where "map_of (tickets ?R) tid = Some t"
    by (rule getActiveTicketByVehicle_SomeD)
  then have mem: "(tid, t) \<in> set (tickets ?R)" by (rule map_of_SomeD)
  with ok(3) have tact: "t \<in> set (getActiveTickets ?R)"
    by (auto simp: getActiveTickets_iff)
  have old: "t2 \<in> set (getActiveTickets ?R) \<and> t2 \<noteq> t"
    if "t2 \<in> set (getActiveTickets ?R')" for t2
  proof -
    from that obtain k where a: "isActive t2"
      and k: "(k, t2) \<in> set (AList.update (ticketId t) ?t' (tickets ?R))"
      by (auto simp: getActiveTickets_iff)
    from twf have "distinct (map fst (tickets ?R))" by (simp add: tickets_wf_def)
    from set_update_distinct[OF this k]
    consider "(k, t2) = (ticketId t, ?t')" | "(k, t2) \<in> set (tickets ?R)" "k \<noteq> ticketId t"
      by blast
    then show ?thesis
    proof cases
      case 1
      with a show ?thesis by (simp add: isActive_def)
    next
      case 2
      from tickets_wf_id[OF twf 2(1)] 2(2) have "t2 \<noteq> t" by auto
      with 2(1) a show ?thesis by (auto simp: getActiveTickets_iff)
    qed
  qed
  have keep: "getSpot ?R' (spot t2) = getSpot ?R (spot t2)"
    if "t2 \<in> set (getActiveTickets ?R)" "t2 \<noteq> t" for t2
  proof -
    from occupancy_inv_distinct[OF occ that(1) tact that(2)]
    show ?thesis by (simp add: getSpot_def update_conv')
  qed
  have "occupancy_inv ?R'"
  proof (rule occupancy_invI)
    show "\<exists>sp. getSpot ?R' (spot u) = Some sp \<and> \<not> isAvailable sp
        \<and> currentVehicleLicense sp = Some (licensePlate (vehicle u))"
      if "u \<in> set (getActiveTickets ?R')" for u
    proof -
      from old[OF that] have u: "u \<in> set (getActiveTickets ?R)" "u \<noteq> t" by simp_all
      from occupancy_inv_spot[OF occ u(1)] keep[OF u] show ?thesis by metis
    qed
    show "spot t1 \<noteq> spot t2"
      if "t1 \<in> set (getActiveTickets ?R')" "t2 \<in> set (getActiveTickets ?R')" "t1 \<noteq> t2"
      for t1 t2
      using old[OF that(1)] old[OF that(2)] that(3) occupancy_inv_distinct[OF occ, of t1 t2]
      by blast
  qed
  then show ?thesis by (simp add: ok(5))
qed

lemma apply_op_occupancy:
  assumes "lot_inv svc" "occupancy_inv (repository svc)" "op_allowed op svc"
  shows "occupancy_inv (repository (apply_op env op svc))"
proof (cases op)
  case (CheckIn v now)
  with assms show ?thesis by (simp add: checkInVehicle_occupancy)
next
  case (CheckOut plate exit now)
  with assms show ?thesis by (simp add: checkOutVehicle_occupancy)
next
  case (Allocate vt lic)
  from assms(1) have "spots_wf (repository svc)" by (simp add: lot_inv_def)
  from allocateSpot_occupancy[OF assms(2) this, where env = env and vt = vt and lic = lic] Allocate show ?thesis by simp
next
  case (Release k)
  with assms(3) have "k \<notin> set (map spot (getActiveTickets (repository svc)))" by simp
  from releaseSpot_occupancy[OF assms(2) this] Release show ?thesis by simp
qed

lemma run_occupancy:
  assumes "lot_inv svc" "occupancy_inv (repository svc)" "run_allowed env ops svc"
  shows "occupancy_inv (repository (run env ops svc))"
  using assms
proof (induction ops arbitrary: svc)
  case Nil
  then show ?case by simp
next
  case (Cons op ops)
  from Cons.prems have a: "op_allowed op svc" "run_allowed env ops (apply_op env op svc)" by simp_all
  have "lot_inv (apply_op env op svc)" by (rule apply_op_lot_inv[OF Cons.prems(1)])
  moreover have "occupancy_inv (repository (apply_op env op svc))"
    by (rule apply_op_occupancy[OF Cons.prems(1,2) a(1)])
  ultimately show ?case using Cons.IH a(2) by simp
qed

section \<open>No reassignment of an occupied spot\<close>

lemma no_reassignment_refl: "spots_wf repo \<Longrightarrow> no_reassignment repo repo"
  by (auto simp: no_reassignment_def spots_wf_def getSpot_def)

lemma no_reassignment_frame:
  "spots repo' = spots repo \<Longrightarrow> spots_wf repo \<Longrightarrow> no_reassignment repo repo'"
  by (auto simp: no_reassignment_def spots_wf_def getSpot_def)

lemma no_reassignment_update:
  assumes wf: "spots_wf repo"
    and upd: "spots repo' = AList.update k s' (spots repo)"
    and ok: "\<And>s. getSpot repo k = Some s \<Longrightarrow> \<not> isAvailable s \<Longrightarrow>
        isAvailable s' \<or> currentVehicleLicense s' = currentVehicleLicense s"
  shows "no_reassignment repo repo'"
  unfolding no_reassignment_def
proof (intro ballI, clarify)
  fix k0 sp
  assume mem: "(k0, sp) \<in> set (spots repo)" and occ: "\<not> isAvailable sp"
  from wf mem have g: "getSpot repo k0 = Some sp" by (simp add: spots_wf_def getSpot_def)
  show "case getSpot repo' k0 of None \<Rightarrow> False
      | Some sp' \<Rightarrow> isAvailable sp' \<or> currentVehicleLicense sp' = currentVehicleLicense sp"
  proof (cases "k0 = k")
    case True
    with ok[of sp] g occ show ?thesis by (simp add: getSpot_def upd update_conv')
  next
    case False
    with g show ?thesis by (simp add: getSpot_def upd update_conv')
  qed
qed

lemma allocateSpot_no_reassignment:
  assumes wf: "spots_wf repo"
  shows "no_reassignment repo (snd (allocateSpot env vt lic repo))"
proof (cases "candidates repo vt = {}")
  case True
  with wf show ?thesis by (simp add: allocateSpot_None no_reassignment_refl)
next
  case False
  from allocateSpot_Some[OF False, where env = env and lic = lic] obtain sel where
    sel: "sel \<in> candidates repo vt"
    and res: "allocateSpot env vt lic repo =
       (Inr (Some (sel\<lparr>isAvailable := False, currentVehicleLicense := Some lic\<rparr>)),
        repo\<lparr>spots := AList.update (id_spot sel)
           (sel\<lparr>isAvailable := False, currentVehicleLicense := Some lic\<rparr>) (spots repo)\<rparr>)"
    by blast
  from sel have s: "sel \<in> set (getAllSpots repo)" "isAvailable sel"
    by (simp_all add: candidates_def)
  have g: "getSpot repo (id_spot sel) = Some sel" by (rule spots_wf_getSpot[OF wf s(1)])
  show ?thesis
  proof (rule no_reassignment_update[OF wf])
    show "spots (snd (allocateSpot env vt lic repo)) = AList.update (id_spot sel)
        (sel\<lparr>isAvailable := False, currentVehicleLicense := Some lic\<rparr>) (spots repo)"
      by (simp add: res)
    show "isAvailable (sel\<lparr>isAvailable := False, currentVehicleLicense := Some lic\<rparr>)
        \<or> currentVehicleLicense (sel\<lparr>isAvailable := False, currentVehicleLicense := Some lic\<rparr>) =
          currentVehicleLicense s"
      if "getSpot repo (id_spot sel) = Some s" "\<not> isAvailable s" for s
      using that g s(2) by simp
  qed
qed

lemma releaseSpot_no_reassignment:
  assumes wf: "spots_wf repo"
  shows "no_reassignment repo (snd (releaseSpot k repo))"
proof (cases "getSpot repo k")
  case None
  with wf show ?thesis by (simp add: releaseSpot_None no_reassignment_refl)
next
  case (Some sp)
  show ?thesis
    by (rule no_reassignment_update[OF wf, of _ k "release sp"])
      (simp_all add: releaseSpot_Some Some release_def)
qed

lemma apply_op_no_reassignment:
  assumes inv: "lot_inv svc"
  shows "no_reassignment (repository svc) (repository (apply_op env op svc))"
proof -
  from inv have wf: "spots_wf (repository svc)" by (simp add: lot_inv_def)
  show ?thesis
  proof (cases op)
    case (CheckIn v now)
    show ?thesis
    proof (cases rule: checkInVehicle_cases[where env = env and svc = svc and v = v and now = now])
      case (parked t)
      with wf CheckIn show ?thesis by (simp add: no_reassignment_refl)
    next
      case full
      with wf CheckIn show ?thesis by (simp add: no_reassignment_refl)
    next
      case (success sel)
      note st = checkInVehicle_success_state[OF success(4)]
      from success(2) have s: "sel \<in> set (getAllSpots (repository svc))" "isAvailable sel"
        by (simp_all add: candidates_def)
      have g: "getSpot (repository svc) (id_spot sel) = Some sel"
        by (rule spots_wf_getSpot[OF wf s(1)])
      have "no_reassignment (repository svc) (repository (snd (checkInVehicle env v now svc)))"
      proof (rule no_reassignment_update[OF wf st(1)])
        show "isAvailable (sel\<lparr>isAvailable := False, currentVehicleLicense := Some (licensePlate v)\<rparr>)
          \<or> currentVehicleLicense
              (sel\<lparr>isAvailable := False, currentVehicleLicense := Some (licensePlate v)\<rparr>) =
            currentVehicleLicense s"
          if "getSpot (repository svc) (id_spot sel) = Some s" "\<not> isAvailable s" for s
          using that g s(2) by simp
      qed
      with CheckIn show ?thesis by simp
    qed
  next
    case (CheckOut plate exit now)
    show ?thesis
    proof (cases rule: checkOutVehicle_cases[where env = env and svc = svc and plate = plate and exit = exit
          and now = now])
      case none
      with wf CheckOut show ?thesis by (simp add: no_reassignment_refl)
    next
      case (norate t e)
      with wf CheckOut show ?thesis by (simp add: no_reassignment_refl)
    next
      case (completed t)
      with wf CheckOut show ?thesis by (simp add: no_reassignment_refl)
    next
      case (nospot t f)
      have "no_reassignment (repository svc) (repository (snd (checkOutVehicle env plate exit now svc)))"
        by (rule no_reassignment_frame[OF _ wf]) (simp add: nospot(5))
      with CheckOut show ?thesis by simp
    next
      case (ok t f sp)
      have "no_reassignment (repository svc) (repository (snd (checkOutVehicle env plate exit now svc)))"
        by (rule no_reassignment_update[OF wf, of _ "spot t" "release sp"])
          (simp_all add: ok(5) release_def)
      with CheckOut show ?thesis by simp
    qed
  next
    case (Allocate vt lic)
    with allocateSpot_no_reassignment[OF wf, where env = env and vt = vt and lic = lic] show ?thesis by simp
  next
    case (Release k)
    with releaseSpot_no_reassignment[OF wf, of k] show ?thesis by simp
  qed
qed

lemma initialLot_occupancy: "occupancy_inv (repository (initialLot fc floors spf))"
  by (simp add: occupancy_inv_def getActiveTickets_def getAllTickets_def initialLot_tickets)

text \<open>
  Claim C2, for the runs in which the spot manager's \<open>releaseSpot\<close> is not called from
  outside on the spot of an active ticket. In every state that such a run of check-ins,
  check-outs, allocations and releases reaches from an initialized lot, the spot of each
  active ticket is in the repository, marked occupied, with the ticket's vehicle as
  occupant, and different active tickets refer to different spots. In every run, allowed or
  not, no operation gives a spot that is occupied to another vehicle: after the operation
  the spot is available or has the same occupant.
\<close>

theorem occupancy_of_allowed_runs:
  "(run_allowed env ops (initialLot fc floors spf) \<longrightarrow>
      occupancy_inv (repository (run env ops (initialLot fc floors spf))))
   \<and> no_reassignment (repository (run env ops (initialLot fc floors spf)))
        (repository (apply_op env op (run env ops (initialLot fc floors spf))))"
proof (intro conjI impI)
  assume "run_allowed env ops (initialLot fc floors spf)"
  with initialLot_lot_inv initialLot_occupancy
  show "occupancy_inv (repository (run env ops (initialLot fc floors spf)))"
    by (rule run_occupancy)
next
  have "lot_inv (run env ops (initialLot fc floors spf))"
    by (rule run_lot_inv[OF initialLot_lot_inv])
  then show "no_reassignment (repository (run env ops (initialLot fc floors spf)))
        (repository (apply_op env op (run env ops (initialLot fc floors spf))))"
    by (rule apply_op_no_reassignment)
qed

theorem occupancy_of_allowed_runs_witness:
  "run_allowed exactRuntime [CheckIn car1 0, CheckIn motorcycle1 5, Allocate BUS ''BUS-009'',
       CheckOut ''CAR-001'' 9000000 9000001, Release ''L4'', CheckIn bus1 9] exampleLot
   \<and> occupancy_inv (repository (run exactRuntime [CheckIn car1 0, CheckIn motorcycle1 5,
       Allocate BUS ''BUS-009'', CheckOut ''CAR-001'' 9000000 9000001, Release ''L4'',
       CheckIn bus1 9] exampleLot))
   \<and> map spot (getActiveTickets (repository (run exactRuntime [CheckIn car1 0, CheckIn motorcycle1 5,
       Allocate BUS ''BUS-009'', CheckOut ''CAR-001'' 9000000 9000001, Release ''L4'',
       CheckIn bus1 9] exampleLot))) = [''C3'', ''L4'']"
proof -
  let ?ops = "[CheckIn car1 0, CheckIn motorcycle1 5, Allocate BUS ''BUS-009'',
       CheckOut ''CAR-001'' 9000000 9000001, Release ''L4'', CheckIn bus1 9]"
  have a: "run_allowed exactRuntime ?ops exampleLot" by code_simp
  have b: "map spot (getActiveTickets (repository (run exactRuntime ?ops exampleLot))) = [''C3'', ''L4'']"
    by code_simp
  note th = occupancy_of_allowed_runs[where ops = ?ops and fc = "FeeCalculator_new None"
      and floors = 2 and spf = exampleSpotsPerFloor, folded exampleLot_def]
  from th[THEN conjunct1, rule_format, OF a]
  have c: "occupancy_inv (repository (run exactRuntime ?ops exampleLot))" .
  from a c b show ?thesis by (intro conjI)
qed

text \<open>
  A run with a release from outside: a motorcycle checks in on the only spot, the spot is
  released through the spot manager, and a second motorcycle checks in. Both tickets are
  active and refer to the spot \<open>M1\<close>.
\<close>

theorem occupancy_broken_by_release:
  "map ticketId (getActiveTickets (repository (run exactRuntime [CheckIn motorcycle1 0, Release ''M1'',
       CheckIn motorcycle2 5] singleSpotLot))) = [''T000001'', ''T000002'']
   \<and> map spot (getActiveTickets (repository (run exactRuntime [CheckIn motorcycle1 0, Release ''M1'',
       CheckIn motorcycle2 5] singleSpotLot))) = [''M1'', ''M1'']
   \<and> \<not> occupancy_inv (repository (run exactRuntime [CheckIn motorcycle1 0, Release ''M1'',
       CheckIn motorcycle2 5] singleSpotLot))
   \<and> \<not> occupancy_inv (repository (run exactRuntime [CheckIn motorcycle1 0, Release ''M1''] singleSpotLot))"
  by code_simp

section \<open>Round trip of a session\<close>

lemma apply_op_feeCalculator: "feeCalculator (apply_op env op svc) = feeCalculator svc"
proof (cases op)
  case (CheckIn v now)
  show ?thesis
    by (cases rule: checkInVehicle_cases[where env = env and svc = svc and v = v and now = now]) (simp_all add: CheckIn)
next
  case (CheckOut plate exit now)
  show ?thesis
    by (cases rule: checkOutVehicle_cases[where env = env and svc = svc and plate = plate and exit = exit
          and now = now]) (simp_all add: CheckOut)
qed simp_all

lemma run_feeCalculator: "feeCalculator (run env ops svc) = feeCalculator svc"
  by (induction ops arbitrary: svc) (simp_all add: apply_op_feeCalculator)

lemma getSpot_update_dom:
  "getSpot repo k' \<noteq> None \<Longrightarrow> map_of (AList.update k sp (spots repo)) k' \<noteq> None"
  by (simp add: getSpot_def update_conv')

lemma checkInVehicle_session_kept:
  assumes inv: "lot_inv svc" and kept: "session_kept S fc svc"
    and other: "licensePlate w \<noteq> licensePlate (vehicle S)"
  shows "session_kept S fc (snd (checkInVehicle env w now svc))"
proof (cases rule: checkInVehicle_cases[where env = env and svc = svc and v = w and now = now])
  case (parked t)
  with kept show ?thesis by simp
next
  case full
  with kept show ?thesis by simp
next
  case (success sel)
  note st = checkInVehicle_success_state[OF success(4)]
  from inv have twf: "tickets_wf svc" by (simp add: lot_inv_def)
  from kept have S: "map_of (tickets (repository svc)) (ticketId S) = Some S"
    by (simp add: session_kept_def)
  then have "ticketId S \<in> fst ` set (tickets (repository svc))"
    by (auto dest: map_of_SomeD intro: rev_image_eqI)
  with tickets_wf_fresh[OF twf] have ne: "ticketId S \<noteq> ticketIdOf (ticketCounter svc)"
    by metis
  from kept have sp: "getSpot (repository svc) (spot S) \<noteq> None" by (simp add: session_kept_def)
  have "getSpot (repository (snd (checkInVehicle env w now svc))) (spot S) \<noteq> None"
    unfolding getSpot_def st(1) by (rule getSpot_update_dom[OF sp])
  with kept other ne show ?thesis
    by (simp add: session_kept_def st update_conv')
qed

lemma checkOutVehicle_session_kept:
  assumes inv: "lot_inv svc" and kept: "session_kept S fc svc"
    and other: "plate \<noteq> licensePlate (vehicle S)"
  shows "session_kept S fc (snd (checkOutVehicle env plate exit now svc))"
proof -
  from inv have twf: "tickets_wf svc" and iwf: "index_wf (repository svc)"
    by (simp_all add: lot_inv_def)
  from kept have S: "map_of (tickets (repository svc)) (ticketId S) = Some S"
    and ix: "map_of (activeTicketsByVehicle (repository svc)) (licensePlate (vehicle S)) =
        Some (ticketId S)"
    and sp: "getSpot (repository svc) (spot S) \<noteq> None"
    and fc: "feeCalculator svc = fc"
    by (simp_all add: session_kept_def)
  have diff: "ticketId t \<noteq> ticketId S \<and> licensePlate (vehicle t) \<noteq> licensePlate (vehicle S)"
    if got: "getActiveTicketByVehicle (repository svc) plate = Some t" for t
  proof -
    from got obtain tid where tid: "map_of (activeTicketsByVehicle (repository svc)) plate = Some tid"
      "map_of (tickets (repository svc)) tid = Some t"
      by (rule getActiveTicketByVehicle_SomeD)
    from iwf tid have pl: "licensePlate (vehicle t) = plate"
      unfolding index_wf_def by fastforce
    from tid(2) have "(tid, t) \<in> set (tickets (repository svc))" by (rule map_of_SomeD)
    with twf have id: "ticketId t = tid" by (rule tickets_wf_id)
    have "ticketId t \<noteq> ticketId S"
    proof
      assume "ticketId t = ticketId S"
      with id tid(2) S have "t = S" by simp
      with pl other show False by simp
    qed
    with pl other show ?thesis by simp
  qed
  show ?thesis
  proof (cases rule: checkOutVehicle_cases[where env = env and svc = svc and plate = plate and exit = exit
        and now = now])
    case none
    with kept show ?thesis by simp
  next
    case (norate t e)
    with kept show ?thesis by simp
  next
    case (completed t)
    with kept show ?thesis by simp
  next
    case (nospot t f)
    from diff[OF nospot(1)] S ix sp fc show ?thesis
      by (auto simp: session_kept_def nospot(5) update_conv' delete_conv' getSpot_def)
  next
    case (ok t f s0)
    from diff[OF ok(1)] S ix fc getSpot_update_dom[OF sp, of "spot t" "release s0"] show ?thesis
      by (auto simp: session_kept_def ok(5) update_conv' delete_conv' getSpot_def)
  qed
qed

lemma allocateSpot_getSpot_dom:
  assumes "getSpot repo k \<noteq> None"
  shows "getSpot (snd (allocateSpot env vt lic repo)) k \<noteq> None"
proof (cases "candidates repo vt = {}")
  case True
  with assms show ?thesis by (simp add: allocateSpot_None)
next
  case False
  from allocateSpot_Some[OF False, where env = env and lic = lic] obtain sel where
    "allocateSpot env vt lic repo =
       (Inr (Some (sel\<lparr>isAvailable := False, currentVehicleLicense := Some lic\<rparr>)),
        repo\<lparr>spots := AList.update (id_spot sel)
           (sel\<lparr>isAvailable := False, currentVehicleLicense := Some lic\<rparr>) (spots repo)\<rparr>)"
    by blast
  with getSpot_update_dom[OF assms] show ?thesis by (simp add: getSpot_def)
qed

lemma releaseSpot_getSpot_dom:
  "getSpot repo k \<noteq> None \<Longrightarrow> getSpot (snd (releaseSpot k' repo)) k \<noteq> None"
  by (cases "getSpot repo k'")
    (auto simp: releaseSpot_None releaseSpot_Some getSpot_def update_conv')

lemma apply_op_session_kept:
  assumes inv: "lot_inv svc" and kept: "session_kept S fc svc"
    and other: "\<not> op_on (licensePlate (vehicle S)) op"
  shows "session_kept S fc (apply_op env op svc)"
proof (cases op)
  case (CheckIn w now)
  with other have "licensePlate w \<noteq> licensePlate (vehicle S)" by simp
  from checkInVehicle_session_kept[OF inv kept this] CheckIn show ?thesis by simp
next
  case (CheckOut plate exit now)
  with other have "plate \<noteq> licensePlate (vehicle S)" by simp
  from checkOutVehicle_session_kept[OF inv kept this] CheckOut show ?thesis by simp
next
  case (Allocate vt lic)
  with kept allocateSpot_getSpot_dom[where env = env and repo = "repository svc" and k = "spot S" and vt = vt and lic = lic] show ?thesis
    by (simp add: session_kept_def allocateSpot_frame)
next
  case (Release k)
  with kept releaseSpot_getSpot_dom[of "repository svc" "spot S" k] show ?thesis
    by (simp add: session_kept_def releaseSpot_frame)
qed

lemma run_session_kept:
  assumes "lot_inv svc" "session_kept S fc svc"
    "\<forall>op \<in> set ops. \<not> op_on (licensePlate (vehicle S)) op"
  shows "session_kept S fc (run env ops svc)"
  using assms
proof (induction ops arbitrary: svc)
  case Nil
  then show ?case by simp
next
  case (Cons op ops)
  from Cons.prems(3) have a: "\<not> op_on (licensePlate (vehicle S)) op"
    "\<forall>op \<in> set ops. \<not> op_on (licensePlate (vehicle S)) op" by simp_all
  have "lot_inv (apply_op env op svc)" by (rule apply_op_lot_inv[OF Cons.prems(1)])
  moreover have "session_kept S fc (apply_op env op svc)"
    by (rule apply_op_session_kept[OF Cons.prems(1,2) a(1)])
  ultimately show ?case using Cons.IH a(2) by simp
qed

lemma checkInVehicle_Some_session:
  assumes inv: "lot_inv svc"
    and res: "checkInVehicle env v t0 svc = (Inr (Some S), s1)"
  shows "session_kept S (feeCalculator svc) s1"
    and "vehicle S = v" and "entryTime S = t0" and "exitTime S = None" and "fee S = None"
    and "\<exists>sp. getSpot (repository s1) (spot S) = Some sp \<and> \<not> isAvailable sp
          \<and> currentVehicleLicense sp = Some (licensePlate v)"
proof -
  have all: "session_kept S (feeCalculator svc) s1 \<and> vehicle S = v \<and> entryTime S = t0
    \<and> exitTime S = None \<and> fee S = None
    \<and> (\<exists>sp. getSpot (repository s1) (spot S) = Some sp \<and> \<not> isAvailable sp
          \<and> currentVehicleLicense sp = Some (licensePlate v))"
  proof (cases rule: checkInVehicle_cases[where env = env and svc = svc and v = v and now = t0])
    case (parked t)
    with res show ?thesis by simp
  next
    case full
    with res show ?thesis by simp
  next
    case (success sel)
    note st = checkInVehicle_success_state[OF success(4)]
    from success(4) res have S: "S = ParkingTicket_new (ticketIdOf (ticketCounter svc)) v sel t0"
      and s1: "s1 = snd (checkInVehicle env v t0 svc)"
      by simp_all
    show ?thesis
      unfolding s1 S
      by (simp add: session_kept_def st update_conv' ParkingTicket_new_def getSpot_def)
  qed
  then show "session_kept S (feeCalculator svc) s1"
    and "vehicle S = v" and "entryTime S = t0" and "exitTime S = None" and "fee S = None"
    and "\<exists>sp. getSpot (repository s1) (spot S) = Some sp \<and> \<not> isAvailable sp
          \<and> currentVehicleLicense sp = Some (licensePlate v)"
    by simp_all
qed

lemma calculateFee_registered:
  "rates vt = Some rate \<Longrightarrow> \<exists>f. calculateFee env rates vt d = Inr f"
  by (simp add: calculateFee_def Let_def)

lemma checkOutVehicle_kept_session:
  assumes kept: "session_kept S fc svc"
    and act: "exitTime S = None"
    and f: "calculateFee env fc (type_vehicle (vehicle S))
        (num_div env (num_sub env (of_int now) (of_int (entryTime S))) (1000 * 60 * 60)) = Inr f"
  shows "fst (checkOutVehicle env (licensePlate (vehicle S)) exit now svc) =
      Inr (S\<lparr>exitTime := Some exit, fee := Some f\<rparr>)
    \<and> (\<exists>sp. getSpot (repository (snd (checkOutVehicle env (licensePlate (vehicle S)) exit now svc)))
              (spot S) = Some sp \<and> isAvailable sp \<and> currentVehicleLicense sp = None)
    \<and> getTicket (repository (snd (checkOutVehicle env (licensePlate (vehicle S)) exit now svc)))
        (ticketId S) = Some (S\<lparr>exitTime := Some exit, fee := Some f\<rparr>)
    \<and> getActiveTicketByVehicle
        (repository (snd (checkOutVehicle env (licensePlate (vehicle S)) exit now svc)))
        (licensePlate (vehicle S)) = None"
proof -
  from kept have got: "getActiveTicketByVehicle (repository svc) (licensePlate (vehicle S)) = Some S"
    and sp: "getSpot (repository svc) (spot S) \<noteq> None" and fc: "feeCalculator svc = fc"
    by (simp_all add: session_kept_def getActiveTicketByVehicle_def)
  have dur: "getDuration env S now = num_div env (num_sub env (of_int now) (of_int (entryTime S))) (1000 * 60 * 60)"
    by (simp add: getDuration_def act)
  show ?thesis
  proof (cases rule: checkOutVehicle_cases[where env = env and svc = svc and plate = "licensePlate (vehicle S)"
        and exit = exit and now = now])
    case none
    with got show ?thesis by simp
  next
    case (norate t e)
    from norate(1) got have t: "t = S" by simp
    from norate(2)
    have "calculateFee env fc (type_vehicle (vehicle S))
        (num_div env (num_sub env (of_int now) (of_int (entryTime S))) (1000 * 60 * 60)) = Inl e"
      unfolding t fc dur .
    with f show ?thesis by simp
  next
    case (completed t)
    with got act show ?thesis by (simp add: isActive_def)
  next
    case (nospot t f')
    with got sp show ?thesis by simp
  next
    case (ok t f' s0)
    from ok(1) got have t: "t = S" by simp
    from ok(2)
    have "calculateFee env fc (type_vehicle (vehicle S))
        (num_div env (num_sub env (of_int now) (of_int (entryTime S))) (1000 * 60 * 60)) = Inr f'"
      unfolding t fc dur .
    with f have f': "f' = f" by simp
    show ?thesis
      unfolding ok(5) t f'
      by (simp add: getSpot_def getTicket_def getActiveTicketByVehicle_def update_conv'
          delete_conv' release_def)
  qed
qed

text \<open>
  Claim C3, with the rate of the vehicle type registered. Let a check-in of the vehicle
  \<open>v\<close> at time \<open>t0\<close>, in a state that a run reaches from an initialized lot, return the
  session \<open>S\<close>; its spot is then occupied by \<open>v\<close>. After any further operations that are not
  a check-in or a check-out of \<open>v\<close>, a check-out of \<open>v\<close> at time \<open>exit\<close> returns the
  session \<open>S\<close> with the same identifier, with the exit time \<open>exit\<close> and with the fee that
  the fee calculator computes for the type of \<open>v\<close> from the duration between \<open>t0\<close> and
  \<open>exit\<close>, in hours; afterwards the spot of \<open>S\<close> is available and has no occupant, the
  store holds the completed session and \<open>v\<close> has no active session.
\<close>

theorem checkIn_checkOut_round_trip:
  assumes "checkInVehicle env v t0 (run env ops0 (initialLot fc floors spf)) = (Inr (Some S), s1)"
    and "\<forall>op \<in> set ops. \<not> op_on (licensePlate v) op"
    and "fc (type_vehicle v) = Some rate"
  shows "\<exists>f. calculateFee env fc (type_vehicle v)
          (num_div env (num_sub env (of_int exit) (of_int t0)) (1000 * 60 * 60)) = Inr f
    \<and> (\<exists>sp. getSpot (repository s1) (spot S) = Some sp \<and> \<not> isAvailable sp
            \<and> currentVehicleLicense sp = Some (licensePlate v))
    \<and> fst (checkOutVehicle env (licensePlate v) exit exit (run env ops s1)) =
        Inr (S\<lparr>exitTime := Some exit, fee := Some f\<rparr>)
    \<and> ticketId (S\<lparr>exitTime := Some exit, fee := Some f\<rparr>) = ticketId S
    \<and> (\<exists>sp. getSpot (repository (snd (checkOutVehicle env (licensePlate v) exit exit (run env ops s1))))
              (spot S) = Some sp \<and> isAvailable sp \<and> currentVehicleLicense sp = None)
    \<and> getTicket (repository (snd (checkOutVehicle env (licensePlate v) exit exit (run env ops s1))))
        (ticketId S) = Some (S\<lparr>exitTime := Some exit, fee := Some f\<rparr>)
    \<and> getActiveTicketByVehicle
        (repository (snd (checkOutVehicle env (licensePlate v) exit exit (run env ops s1))))
        (licensePlate v) = None"
proof -
  let ?s0 = "run env ops0 (initialLot fc floors spf)"
  have inv0: "lot_inv ?s0" by (rule run_lot_inv[OF initialLot_lot_inv])
  have fc0: "feeCalculator ?s0 = fc"
    by (simp add: run_feeCalculator initialLot_tickets)
  note s = checkInVehicle_Some_session[OF inv0 assms(1)]
  have inv1: "lot_inv s1"
    using checkInVehicle_lot_inv[OF inv0, where env = env and v = v and now = t0] assms(1) by simp
  from s(1) fc0 have kept1: "session_kept S fc s1" by simp
  from assms(2) s(2) have "\<forall>op \<in> set ops. \<not> op_on (licensePlate (vehicle S)) op" by simp
  from run_session_kept[OF inv1 kept1 this] have kept2: "session_kept S fc (run env ops s1)" .
  from calculateFee_registered[where rates = fc and vt = "type_vehicle v", OF assms(3)] obtain f where
    fv: "calculateFee env fc (type_vehicle v)
          (num_div env (num_sub env (of_int exit) (of_int t0)) (1000 * 60 * 60)) = Inr f"
    by blast
  with s(2,3)
  have f: "calculateFee env fc (type_vehicle (vehicle S))
      (num_div env (num_sub env (of_int exit) (of_int (entryTime S))) (1000 * 60 * 60)) = Inr f"
    by simp
  from checkOutVehicle_kept_session[OF kept2 s(4) f, where exit = exit] s(2) s(6) fv
  show ?thesis by simp
qed

theorem checkIn_checkOut_round_trip_witness:
  "fst (checkInVehicle exactRuntime car1 5 (run exactRuntime [CheckIn motorcycle1 0] exampleLot)) =
     Inr (Some \<lparr>ticketId = ''T000002'', vehicle = car1, spot = ''C3'', entryTime = 5,
                exitTime = None, fee = None\<rparr>)
   \<and> fst (checkOutVehicle exactRuntime ''CAR-001'' 9000005 9000005
        (run exactRuntime [CheckIn bus1 7, Release ''M1'', CheckOut ''MC-001'' 100 100]
          (snd (checkInVehicle exactRuntime car1 5 (run exactRuntime [CheckIn motorcycle1 0] exampleLot))))) =
       Inr \<lparr>ticketId = ''T000002'', vehicle = car1, spot = ''C3'', entryTime = 5,
            exitTime = Some 9000005, fee = Some 10\<rparr>"
proof -
  let ?S = "\<lparr>ticketId = ''T000002'', vehicle = car1, spot = ''C3'', entryTime = 5,
                exitTime = None, fee = None :: real option\<rparr>"
  let ?s0 = "run exactRuntime [CheckIn motorcycle1 0] exampleLot"
  let ?s1 = "snd (checkInVehicle exactRuntime car1 5 ?s0)"
  let ?ops = "[CheckIn bus1 7, Release ''M1'', CheckOut ''MC-001'' 100 100]"
  have a: "fst (checkInVehicle exactRuntime car1 5 ?s0) = Inr (Some ?S)" by code_simp
  then have h1: "checkInVehicle exactRuntime car1 5
      (run exactRuntime [CheckIn motorcycle1 0] (initialLot (FeeCalculator_new None) 2 exampleSpotsPerFloor)) =
      (Inr (Some ?S), ?s1)"
    by (simp add: prod_eq_iff exampleLot_def)
  have h2: "\<forall>op \<in> set ?ops. \<not> op_on (licensePlate car1) op"
    by (simp add: car1_def bus1_def)
  have h3: "FeeCalculator_new None (type_vehicle car1) = Some \<lparr>vehicleType = CAR, baseFee = 5, hourlyRate = 5 / 2\<rparr>"
    by (simp add: FeeCalculator_default_CAR car1_def)
  have fee: "calculateFee exactRuntime (FeeCalculator_new None) (type_vehicle car1)
      (num_div exactRuntime (num_sub exactRuntime (of_int 9000005) (of_int 5)) (1000 * 60 * 60)) = Inr 10"
    by (simp add: calculateFee_def FeeCalculator_default_CAR car1_def exactRuntime_simps)
  from checkIn_checkOut_round_trip[OF h1 h2 h3, where exit = 9000005] obtain f where
    f: "calculateFee exactRuntime (FeeCalculator_new None) (type_vehicle car1)
          (num_div exactRuntime (num_sub exactRuntime (of_int 9000005) (of_int 5)) (1000 * 60 * 60)) = Inr f"
    and out: "fst (checkOutVehicle exactRuntime (licensePlate car1) 9000005 9000005
        (run exactRuntime ?ops ?s1)) = Inr (?S\<lparr>exitTime := Some 9000005, fee := Some f\<rparr>)"
    by blast
  from f fee have "f = 10" by simp
  with out have b: "fst (checkOutVehicle exactRuntime ''CAR-001'' 9000005 9000005 (run exactRuntime ?ops ?s1)) =
       Inr \<lparr>ticketId = ''T000002'', vehicle = car1, spot = ''C3'', entryTime = 5,
            exitTime = Some 9000005, fee = Some 10\<rparr>"
    by (simp add: car1_def)
  from a b show ?thesis by (intro conjI)
qed

text \<open>
  With a fee calculator that has no rate for cars the check-in of a car succeeds and its
  check-out fails: it returns no session.
\<close>

theorem round_trip_without_rate:
  "fst (checkInVehicle exactRuntime car1 0 motorcycleRateLot) =
     Inr (Some \<lparr>ticketId = ''T000001'', vehicle = car1, spot = ''C2'', entryTime = 0,
                exitTime = None, fee = None\<rparr>)
   \<and> fst (checkOutVehicle exactRuntime ''CAR-001'' 5 5 (snd (checkInVehicle exactRuntime car1 0 motorcycleRateLot))) =
       Inl (NoRateFound CAR)"
  by code_simp

end
